theory Spec2Isabelle
  imports Complex_Main "HOL-Library.Sublist"
begin

section \<open>Text primitives of the host language\<close>

text \<open>
  Descriptions, patterns and cells are Python \<open>str\<close> values. They are modelled as
  \<open>string\<close> (lists of 8-bit characters) and read as ASCII text: the functions below
  give the behaviour of \<open>str.strip\<close>, \<open>str.upper\<close>, \<open>str.lower\<close>, \<open>str.split\<close>,
  \<open>' '.join\<close> and the \<open>in\<close> substring test on ASCII input. Characters above 127 are
  left alone by the case conversions and are neither digits nor white space.
\<close>

definition is_space :: "char \<Rightarrow> bool" where
  "is_space c \<longleftrightarrow> c \<in> set [CHR 0x09, CHR 0x0A, CHR 0x0B, CHR 0x0C, CHR 0x0D,
                            CHR 0x1C, CHR 0x1D, CHR 0x1E, CHR 0x1F, CHR 0x20]"

definition is_digit :: "char \<Rightarrow> bool" where
  "is_digit c \<longleftrightarrow> c \<in> set ''0123456789''"

definition upper_char :: "char \<Rightarrow> char" where
  "upper_char c =
     (case map_of (zip ''abcdefghijklmnopqrstuvwxyz'' ''ABCDEFGHIJKLMNOPQRSTUVWXYZ'') c of
        Some u \<Rightarrow> u | None \<Rightarrow> c)"

definition lower_char :: "char \<Rightarrow> char" where
  "lower_char c =
     (case map_of (zip ''ABCDEFGHIJKLMNOPQRSTUVWXYZ'' ''abcdefghijklmnopqrstuvwxyz'') c of
        Some l \<Rightarrow> l | None \<Rightarrow> c)"

definition upper :: "string \<Rightarrow> string" where
  "upper s = map upper_char s"

definition lower :: "string \<Rightarrow> string" where
  "lower s = map lower_char s"

definition strip :: "string \<Rightarrow> string" where
  "strip s = rev (dropWhile is_space (rev (dropWhile is_space s)))"

text \<open>\<open>str.split()\<close> without arguments: the maximal runs of non-space characters.\<close>

fun split_from :: "string \<Rightarrow> string \<Rightarrow> string list" where
  "split_from cur [] = (if cur = [] then [] else [cur])"
| "split_from cur (c # cs) =
     (if is_space c then (if cur = [] then split_from [] cs else cur # split_from [] cs)
      else split_from (cur @ [c]) cs)"

definition split :: "string \<Rightarrow> string list" where
  "split s = split_from [] s"

fun join_space :: "string list \<Rightarrow> string" where
  "join_space [] = []"
| "join_space [w] = w"
| "join_space (w # ws) = w @ '' '' @ join_space ws"

text \<open>\<open>p in d\<close> on strings: \<open>p\<close> occurs in \<open>d\<close> as a contiguous block.\<close>

fun str_in :: "string \<Rightarrow> string \<Rightarrow> bool" where
  "str_in p [] \<longleftrightarrow> p = []"
| "str_in p (c # cs) \<longleftrightarrow> prefix p (c # cs) \<or> str_in p cs"

section \<open>Merchant pattern extraction\<close>

text \<open>
  The three \<open>re.sub\<close> calls of \<open>_extract_merchant_pattern\<close>, each as the scan the regular
  expression engine performs: leftmost match first, greedy repetition, the scan resuming
  after a match.
\<close>

text \<open>\<open>re.sub(r'#\d+', '', s)\<close>\<close>

function strip_store_numbers :: "string \<Rightarrow> string" where
  "strip_store_numbers [] = []"
| "strip_store_numbers (c # cs) =
     (if c = CHR ''#'' \<and> takeWhile is_digit cs \<noteq> []
      then strip_store_numbers (dropWhile is_digit cs)
      else c # strip_store_numbers cs)"
  by pat_completeness auto
termination
  by (relation "measure length") (auto simp: length_dropWhile_le less_Suc_eq_le)

text \<open>
  \<open>\d{1,2}\<close> at the head of a string followed by a separator \<open>[/-]\<close>: the text after the
  separator. Two digits are tried first; when the second character is a digit the
  one-digit alternative cannot be followed by a separator.
\<close>

definition is_date_sep :: "char \<Rightarrow> bool" where
  "is_date_sep c \<longleftrightarrow> c = CHR ''/'' \<or> c = CHR ''-''"

fun digits12_sep :: "string \<Rightarrow> string option" where
  "digits12_sep (a # b # c # rest) =
     (if is_digit a \<and> is_digit b \<and> is_date_sep c then Some rest
      else if is_digit a \<and> is_date_sep b then Some (c # rest)
      else None)"
| "digits12_sep [a, b] = (if is_digit a \<and> is_date_sep b then Some [] else None)"
| "digits12_sep _ = None"

text \<open>\<open>\d{2,4}\<close> at the head of a string, greedy: the text after the digits taken.\<close>

definition digits24 :: "string \<Rightarrow> string option" where
  "digits24 s =
     (let n = length (takeWhile is_digit (take 4 s))
      in if 2 \<le> n then Some (drop n s) else None)"

text \<open>A match of \<open>\d{1,2}[/-]\d{1,2}[/-]\d{2,4}\<close> at the head: the text after it.\<close>

definition match_date :: "string \<Rightarrow> string option" where
  "match_date s =
     (case digits12_sep s of
        None \<Rightarrow> None
      | Some r1 \<Rightarrow> (case digits12_sep r1 of None \<Rightarrow> None | Some r2 \<Rightarrow> digits24 r2))"

lemma digits12_sep_shorter: "digits12_sep s = Some r \<Longrightarrow> length r < length s"
  by (induction s rule: digits12_sep.induct) (auto split: if_splits)

lemma digits24_shorter: "digits24 s = Some r \<Longrightarrow> length r < length s"
proof -
  assume a: "digits24 s = Some r"
  let ?n = "length (takeWhile is_digit (take 4 s))"
  have "?n \<le> length (take 4 s)" by (rule length_takeWhile_le)
  then have le: "?n \<le> length s" by simp
  from a have n: "2 \<le> ?n" and r: "r = drop ?n s"
    by (auto simp: digits24_def Let_def split: if_splits)
  from le n r show ?thesis by simp
qed

lemma match_date_shorter: "match_date s = Some r \<Longrightarrow> length r < length s"
  by (fastforce simp: match_date_def split: option.splits
           dest: digits12_sep_shorter digits24_shorter)

text \<open>\<open>re.sub(r'\d{1,2}[/-]\d{1,2}[/-]\d{2,4}', '', s)\<close>\<close>

function strip_dates :: "string \<Rightarrow> string" where
  "strip_dates [] = []"
| "strip_dates (c # cs) =
     (case match_date (c # cs) of
        Some rest \<Rightarrow> strip_dates rest
      | None \<Rightarrow> c # strip_dates cs)"
  by pat_completeness auto
termination
  by (relation "measure length") (auto dest: match_date_shorter)

text \<open>
  \<open>re.sub(r'\s+\d+\s*$', '', s)\<close>: the match, when there is one, is the last run of
  digits with all the white space before it (at least one character) and all the white
  space after it, reaching the end of the string. It is read off the reversed string.
\<close>

definition strip_trailing_number :: "string \<Rightarrow> string" where
  "strip_trailing_number s =
     (let r1 = dropWhile is_space (rev s);
          ds = takeWhile is_digit r1;
          r2 = dropWhile is_digit r1;
          ws = takeWhile is_space r2
      in if ds \<noteq> [] \<and> ws \<noteq> [] then rev (dropWhile is_space r2) else s)"

definition extract_merchant_pattern :: "string \<Rightarrow> string" where
  "extract_merchant_pattern description =
     (let pattern = strip_store_numbers description;
          pattern = strip_dates pattern;
          pattern = strip_trailing_number pattern;
          pattern = join_space (split pattern);
          words = split pattern;
          pattern = (if length words > 4 then join_space (take 4 words) else pattern)
      in strip pattern)"

section \<open>The rule store\<close>

text \<open>
  A document of the \<open>categorization_rules\<close> collection. \<open>rule_id\<close> is the document's
  \<open>_id\<close>; time stamps are readings of the clock (\<open>datetime.utcnow()\<close>), one reading per
  call of an operation. The collection is the list of its documents in natural
  (insertion) order.
\<close>

record rule =
  rule_id :: nat
  pattern :: string
  category_id :: int
  match_type :: string
  created_date :: nat
  last_used :: nat
  use_count :: int

text \<open>The dictionary returned by \<open>categorize\<close>.\<close>

record match_result =
  res_category_id :: int
  confidence :: real
  res_match_type :: string

text \<open>\<open>update_one\<close>: the first document that satisfies the filter is modified.\<close>

fun update_one :: "('a \<Rightarrow> bool) \<Rightarrow> ('a \<Rightarrow> 'a) \<Rightarrow> 'a list \<Rightarrow> 'a list" where
  "update_one P f [] = []"
| "update_one P f (x # xs) = (if P x then f x # xs else x # update_one P f xs)"

text \<open>\<open>insert_one\<close> gives the new document an \<open>_id\<close> that no stored document has.\<close>

definition fresh_id :: "rule list \<Rightarrow> nat" where
  "fresh_id rules = Suc (fold max (map rule_id rules) 0)"

definition update_rule_usage :: "nat \<Rightarrow> nat \<Rightarrow> rule list \<Rightarrow> rule list" where
  "update_rule_usage now rid rules =
     update_one (\<lambda>r. rule_id r = rid)
       (\<lambda>r. r\<lparr>last_used := now, use_count := use_count r + 1\<rparr>) rules"

section \<open>Classification\<close>

text \<open>
  Every tier returns \<open>None\<close> on a miss and, on a hit, the result together with the
  rule store after the usage update.
\<close>

definition exact_match :: "nat \<Rightarrow> rule list \<Rightarrow> string \<Rightarrow> (match_result \<times> rule list) option" where
  "exact_match now rules description =
     (case find (\<lambda>r. pattern r = description \<and> match_type r = ''exact'') rules of
        Some rule \<Rightarrow>
          Some (\<lparr>res_category_id = category_id rule, confidence = 1, res_match_type = ''exact''\<rparr>,
                update_rule_usage now (rule_id rule) rules)
      | None \<Rightarrow> None)"

text \<open>
  \<open>find({'match_type': 'contains'}).sort('use_count', -1)\<close>: descending use count,
  rules of equal use count in natural order.
\<close>

definition contains_rules :: "rule list \<Rightarrow> rule list" where
  "contains_rules rules =
     sort_key (\<lambda>r. - use_count r) (filter (\<lambda>r. match_type r = ''contains'') rules)"

definition contains_match :: "nat \<Rightarrow> rule list \<Rightarrow> string \<Rightarrow> (match_result \<times> rule list) option" where
  "contains_match now rules description =
     (case find (\<lambda>r. str_in (upper (pattern r)) description) (contains_rules rules) of
        Some rule \<Rightarrow>
          Some (\<lparr>res_category_id = category_id rule, confidence = 9 / 10,
                 res_match_type = ''contains''\<rparr>,
                update_rule_usage now (rule_id rule) rules)
      | None \<Rightarrow> None)"

text \<open>
  The loop of \<open>_fuzzy_match\<close> over the fuzzy rules; its state is
  \<open>(best_match, best_score, best_rule)\<close>. The similarity score \<open>fuzz.ratio\<close> belongs to
  an external library and is a parameter, \<open>ratio\<close>.
\<close>

fun fuzzy_scan :: "(string \<Rightarrow> string \<Rightarrow> nat) \<Rightarrow> string \<Rightarrow> rule list \<Rightarrow>
    int option \<times> nat \<times> rule option \<Rightarrow> int option \<times> nat \<times> rule option" where
  "fuzzy_scan ratio description [] st = st"
| "fuzzy_scan ratio description (rule # rules) (best_match, best_score, best_rule) =
     (let score = ratio (upper (pattern rule)) description
      in fuzzy_scan ratio description rules
           (if score > best_score then (Some (category_id rule), score, Some rule)
            else (best_match, best_score, best_rule)))"

text \<open>
  When \<open>best_score \<ge> 80\<close> the loop has stored a rule, so the case \<open>best_rule = None\<close>
  below is never taken (lemma \<open>fuzzy_scan_rule\<close>).
\<close>

definition fuzzy_match :: "(string \<Rightarrow> string \<Rightarrow> nat) \<Rightarrow> nat \<Rightarrow> rule list \<Rightarrow> string \<Rightarrow>
    (match_result \<times> rule list) option" where
  "fuzzy_match ratio now rules description =
     (case fuzzy_scan ratio description (filter (\<lambda>r. match_type r = ''fuzzy'') rules)
             (None, 0, None) of
        (Some best_match, best_score, Some best_rule) \<Rightarrow>
          if best_score \<ge> 80
          then Some (\<lparr>res_category_id = best_match, confidence = real best_score / 100,
                      res_match_type = ''fuzzy''\<rparr>,
                     update_rule_usage now (rule_id best_rule) rules)
          else None
      | _ \<Rightarrow> None)"

definition categorize :: "(string \<Rightarrow> string \<Rightarrow> nat) \<Rightarrow> nat \<Rightarrow> rule list \<Rightarrow> string \<Rightarrow>
    match_result \<times> rule list" where
  "categorize ratio now rules description =
     (let description_clean = upper (strip description)
      in case exact_match now rules description_clean of
           Some result \<Rightarrow> result
         | None \<Rightarrow>
            (case contains_match now rules description_clean of
               Some result \<Rightarrow> result
             | None \<Rightarrow>
                (case fuzzy_match ratio now rules description_clean of
                   Some result \<Rightarrow> result
                 | None \<Rightarrow>
                     (\<lparr>res_category_id = 0, confidence = 0, res_match_type = ''none''\<rparr>,
                      rules))))"

section \<open>Learning\<close>

text \<open>
  \<open>learn_from_categorization\<close> returns the rule handed back to the caller and the rule
  store afterwards. For an existing rule the value handed back is the document read by
  \<open>find_one\<close> before the update.
\<close>

definition learn_from_categorization :: "nat \<Rightarrow> rule list \<Rightarrow> string \<Rightarrow> int \<Rightarrow> rule \<times> rule list" where
  "learn_from_categorization now rules description cid =
     (let description_clean = upper (strip description);
          merchant_pattern = extract_merchant_pattern description_clean
      in case find (\<lambda>r. pattern r = merchant_pattern \<and> match_type r = ''contains'') rules of
           Some existing_rule \<Rightarrow>
             (if category_id existing_rule \<noteq> cid
              then (existing_rule,
                    update_one (\<lambda>r. rule_id r = rule_id existing_rule)
                      (\<lambda>r. r\<lparr>category_id := cid, last_used := now,
                              use_count := use_count r + 1\<rparr>) rules)
              else (existing_rule, rules))
         | None \<Rightarrow>
             (let rule = \<lparr>rule_id = fresh_id rules, pattern = merchant_pattern,
                          category_id = cid, match_type = ''contains'',
                          created_date = now, last_used = now, use_count = 1\<rparr>
              in (rule, rules @ [rule])))"

section \<open>Propagation to similar transactions\<close>

text \<open>
  A document of the \<open>transactions\<close> collection (the schema of the \<open>Transaction\<close> model);
  \<open>txn_id\<close> is the document's \<open>_id\<close>, and every field carries the prefix \<open>txn_\<close> because
  \<open>category_id\<close> and \<open>confidence\<close> already name fields of other documents.
\<close>

record txn =
  txn_id :: nat
  txn_date :: nat
  txn_description :: string
  txn_amount :: real
  txn_category_id :: int
  txn_source_file :: "string option"
  txn_upload_date :: nat
  txn_notes :: string
  txn_auto_categorized :: bool
  txn_confidence :: real

text \<open>
  The filter \<open>{'$regex': re.escape(p), '$options': 'i'}\<close>: the escaped pattern stands for
  its own text, searched anywhere in the field without regard to (ASCII) case.
\<close>

definition regex_escaped_i :: "string \<Rightarrow> string \<Rightarrow> bool" where
  "regex_escaped_i p s \<longleftrightarrow> str_in (upper p) (upper s)"

text \<open>
  \<open>update_many\<close>: every document that satisfies the filter receives the update;
  \<open>modified_count\<close> counts the documents the update actually changed.
\<close>

definition update_many :: "('a \<Rightarrow> bool) \<Rightarrow> ('a \<Rightarrow> 'a) \<Rightarrow> 'a list \<Rightarrow> nat \<times> 'a list" where
  "update_many P f xs =
     (length (filter (\<lambda>x. P x \<and> f x \<noteq> x) xs), map (\<lambda>x. if P x then f x else x) xs)"

text \<open>The count returned and the transaction store afterwards.\<close>

definition batch_categorize_similar :: "txn list \<Rightarrow> string \<Rightarrow> int \<Rightarrow> nat \<times> txn list" where
  "batch_categorize_similar transactions description cid =
     (let description_clean = upper (strip description);
          merchant_pattern = extract_merchant_pattern description_clean;
          uncategorized = filter (\<lambda>t. txn_category_id t = 0
                              \<and> regex_escaped_i merchant_pattern (txn_description t)) transactions;
          transaction_ids = map txn_id uncategorized
      in if transaction_ids = [] then (0, transactions)
         else update_many (\<lambda>t. txn_id t \<in> set transaction_ids)
                (\<lambda>t. t\<lparr>txn_category_id := cid, txn_auto_categorized := True,
                        txn_confidence := 9 / 10\<rparr>) transactions)"

section \<open>Numbers and exceptions of the host language\<close>

text \<open>
  A Python \<open>float\<close>, as far as the parser looks at it: \<open>Finite r\<close> is the number \<open>r\<close>
  (\<open>Finite 0\<close> is the zero \<open>0.0\<close>), \<open>NegZero\<close> is the negative zero \<open>-0.0\<close>, and a
  not-a-number carries its sign bit. \<open>float_abs\<close> is \<open>abs\<close> and \<open>float_neg\<close> is unary minus.
\<close>

datatype pyfloat = Finite real | NegZero | PosInf | NegInf | NaN bool

fun float_abs :: "pyfloat \<Rightarrow> pyfloat" where
  "float_abs (Finite r) = Finite \<bar>r\<bar>"
| "float_abs NegZero = Finite 0"
| "float_abs PosInf = PosInf"
| "float_abs NegInf = PosInf"
| "float_abs (NaN s) = NaN False"

fun float_neg :: "pyfloat \<Rightarrow> pyfloat" where
  "float_neg (Finite r) = (if r = 0 then NegZero else Finite (- r))"
| "float_neg NegZero = Finite 0"
| "float_neg PosInf = NegInf"
| "float_neg NegInf = PosInf"
| "float_neg (NaN s) = NaN (\<not> s)"

text \<open>The exceptions raised in the parser; the argument is the text \<open>str(e)\<close>.\<close>

datatype pyexn = ValueError string | KeyError string | AttributeError string

fun exn_str :: "pyexn \<Rightarrow> string" where
  "exn_str (ValueError m) = m"
| "exn_str (KeyError m) = m"
| "exn_str (AttributeError m) = m"

text \<open>The message of the \<open>AttributeError\<close> raised by \<open>None.strip()\<close>.\<close>

definition none_strip :: string where
  "none_strip = [CHR 0x27] @ ''NoneType'' @ [CHR 0x27] @ '' object has no attribute ''
                @ [CHR 0x27] @ ''strip'' @ [CHR 0x27]"

definition digit_value :: "char \<Rightarrow> nat" where
  "digit_value c = of_char c - 48"

section \<open>The amount normaliser\<close>

text \<open>
  The argument of \<open>parse_amount\<close>: a number, a string, or \<open>None\<close> (the value
  \<open>csv.DictReader\<close> gives a cell that the row does not have).
\<close>

datatype pyval = Num pyfloat | Str string | NoneVal

fun py_str :: "pyval \<Rightarrow> string" where
  "py_str (Str s) = s"
| "py_str NoneVal = ''None''"
| "py_str (Num x) = []"

definition startswith :: "string \<Rightarrow> string \<Rightarrow> bool" where
  "startswith s p \<longleftrightarrow> prefix p s"

definition endswith :: "string \<Rightarrow> string \<Rightarrow> bool" where
  "endswith s p \<longleftrightarrow> suffix p s"

text \<open>\<open>s.replace(c, '')\<close> for a single character \<open>c\<close>.\<close>

definition remove_char :: "char \<Rightarrow> string \<Rightarrow> string" where
  "remove_char c s = filter (\<lambda>x. x \<noteq> c) s"

text \<open>
  The built-in conversion \<open>float(s)\<close> of a string is a parameter, \<open>to_float\<close>: it returns
  \<open>None\<close> where \<open>float\<close> raises \<open>ValueError\<close>. Nothing is assumed of it, so what is proved
  holds of the conversion as Python performs it, with its rounding to binary64.
\<close>

definition parse_amount :: "(string \<Rightarrow> pyfloat option) \<Rightarrow> pyval \<Rightarrow> pyexn + pyfloat" where
  "parse_amount to_float amount_string =
     (case amount_string of
        Num x \<Rightarrow> Inr x
      | _ \<Rightarrow>
        (let amount_str = strip (py_str amount_string)
         in if amount_str = [] \<or> lower amount_str \<in> set [[], ''null'', ''none'', ''n/a'']
            then Inr (Finite 0)
            else
              (let is_negative = False;
                   (is_negative, amount_str) =
                     (if startswith amount_str ''('' \<and> endswith amount_str '')''
                      then (True, butlast (tl amount_str)) else (is_negative, amount_str));
                   amount_str = remove_char CHR '' '' (remove_char CHR '','' (remove_char CHR ''$'' amount_str));
                   (is_negative, amount_str) =
                     (if startswith amount_str ''-'' then (True, tl amount_str)
                      else (is_negative, amount_str))
               in case to_float amount_str of
                    Some amount \<Rightarrow> Inr (if is_negative then float_neg (float_abs amount) else amount)
                  | None \<Rightarrow> Inl (ValueError (''Could not parse amount: '' @ py_str amount_string)))))"

section \<open>The date normaliser\<close>

definition DATE_FORMATS :: "string list" where
  "DATE_FORMATS = [''%Y-%m-%d'', ''%m/%d/%Y'', ''%d/%m/%Y'', ''%Y/%m/%d'', ''%m-%d-%Y'',
                   ''%d-%m-%Y'', ''%b %d, %Y'', ''%B %d, %Y'', ''%d %b %Y'', ''%d %B %Y'']"

text \<open>
  The date library is external: \<open>dateutil\<close> stands for \<open>dateutil.parser.parse\<close> and
  \<open>strptime\<close> for \<open>datetime.strptime\<close>, each returning \<open>None\<close> where the library raises
  one of the exceptions the code catches. A cell is \<open>None\<close> or a string. On \<open>None\<close> the
  free-form parser raises \<open>TypeError\<close>, which is caught, and the first explicit format
  then calls \<open>strip\<close> on \<open>None\<close>.
\<close>

fun try_formats :: "(string \<Rightarrow> string \<Rightarrow> 'd option) \<Rightarrow> string \<Rightarrow> string list \<Rightarrow> 'd option" where
  "try_formats strptime s [] = None"
| "try_formats strptime s (fmt # fmts) =
     (case strptime s fmt of Some d \<Rightarrow> Some d | None \<Rightarrow> try_formats strptime s fmts)"

definition detect_date_format ::
    "(string \<Rightarrow> 'd option) \<Rightarrow> (string \<Rightarrow> string \<Rightarrow> 'd option) \<Rightarrow> string option \<Rightarrow> pyexn + 'd" where
  "detect_date_format dateutil strptime date_string =
     (case date_string of
        None \<Rightarrow> Inl (AttributeError none_strip)
      | Some s \<Rightarrow>
          (case dateutil s of
             Some d \<Rightarrow> Inr d
           | None \<Rightarrow>
               (case try_formats strptime (strip s) DATE_FORMATS of
                  Some d \<Rightarrow> Inr d
                | None \<Rightarrow> Inl (ValueError (''Could not parse date: '' @ s)))))"

section \<open>The column mapper\<close>

definition DATE_COLUMNS :: "string list" where
  "DATE_COLUMNS = [''date'', ''transaction date'', ''trans date'', ''posted date'', ''posting date'']"

definition DESCRIPTION_COLUMNS :: "string list" where
  "DESCRIPTION_COLUMNS = [''description'', ''merchant'', ''memo'', ''transaction'', ''payee'',
                          ''details'', ''description 1'']"

definition AMOUNT_COLUMNS :: "string list" where
  "AMOUNT_COLUMNS = [''amount'', ''debit'', ''credit'', ''transaction amount'', ''value'',
                     ''cad$'', ''usd$'']"

text \<open>
  \<open>headers[headers_lower.index(name)]\<close> when \<open>name in headers_lower\<close>, where \<open>headers_lower\<close>
  holds the headers lower-cased and trimmed: the first header that normalises to \<open>name\<close>.
\<close>

definition header_named :: "string list \<Rightarrow> string \<Rightarrow> string option" where
  "header_named headers name = map_of (zip (map (\<lambda>h. strip (lower h)) headers) headers) name"

fun find_column :: "string list \<Rightarrow> string list \<Rightarrow> string option" where
  "find_column headers [] = None"
| "find_column headers (possible_name # possible_names) =
     (case header_named headers possible_name of
        Some h \<Rightarrow> Some h
      | None \<Rightarrow> find_column headers possible_names)"

text \<open>
  \<open>repr\<close> of a string and of a list of strings, as \<open>f"{headers}"\<close> prints them: single
  quotes unless the text has a single quote and no double quote; backslash, the quote
  in use, and control characters escaped.
\<close>

definition hex_digit :: "nat \<Rightarrow> char" where
  "hex_digit n = ''0123456789abcdef'' ! n"

definition repr_char :: "char \<Rightarrow> char \<Rightarrow> string" where
  "repr_char q c =
     (if c = CHR 0x5C then [CHR 0x5C, CHR 0x5C]
      else if c = q then [CHR 0x5C, q]
      else if c = CHR 0x0A then [CHR 0x5C, CHR ''n'']
      else if c = CHR 0x0D then [CHR 0x5C, CHR ''r'']
      else if c = CHR 0x09 then [CHR 0x5C, CHR ''t'']
      else if (of_char c :: nat) < 32 \<or> c = CHR 0x7F
      then [CHR 0x5C, CHR ''x'', hex_digit (of_char c div 16), hex_digit (of_char c mod 16)]
      else [c])"

definition repr_str :: "string \<Rightarrow> string" where
  "repr_str s =
     (let q = (if CHR 0x27 \<in> set s \<and> CHR 0x22 \<notin> set s then CHR 0x22 else CHR 0x27)
      in [q] @ concat (map (repr_char q) s) @ [q])"

fun join_comma :: "string list \<Rightarrow> string" where
  "join_comma [] = []"
| "join_comma [w] = w"
| "join_comma (w # ws) = w @ '', '' @ join_comma ws"

definition repr_list :: "string list \<Rightarrow> string" where
  "repr_list xs = ''['' @ join_comma (map repr_str xs) @ '']''"

text \<open>The dictionary returned by \<open>detect_columns\<close>, keys \<open>date\<close>, \<open>description\<close>, \<open>amount\<close>,
  \<open>amount_columns\<close>.\<close>

record column_mapping =
  map_date :: string
  map_description :: string
  map_amount :: "string option"
  map_amount_columns :: "string list option"

definition detect_columns :: "string list \<Rightarrow> pyexn + column_mapping" where
  "detect_columns headers =
     (case find_column headers DATE_COLUMNS of
        None \<Rightarrow> Inl (ValueError (''Could not find date column. Available columns: ''
                                  @ repr_list headers))
      | Some date_col \<Rightarrow>
     (case find_column headers DESCRIPTION_COLUMNS of
        None \<Rightarrow> Inl (ValueError (''Could not find description column. Available columns: ''
                                  @ repr_list headers))
      | Some desc_col \<Rightarrow>
     (let amount_cols = List.map_filter (header_named headers) AMOUNT_COLUMNS
      in if amount_cols = []
         then Inl (ValueError (''Could not find amount column. Available columns: ''
                                @ repr_list headers))
         else Inr \<lparr>map_date = date_col, map_description = desc_col,
                   map_amount = (if length amount_cols = 1 then Some (hd amount_cols) else None),
                   map_amount_columns = (if length amount_cols > 1 then Some amount_cols
                                         else None)\<rparr>)))"

section \<open>Rows\<close>

text \<open>
  The dictionary \<open>csv.DictReader\<close> builds from a row: each field name is bound to the
  cell at its position, a later duplicate of a name winning, and to \<open>None\<close> where the row
  is too short. A cell is \<open>string option\<close>, \<open>None\<close> being Python's \<open>None\<close>; looking up a
  name that is no field name gives \<open>None\<close> where the code would raise \<open>KeyError\<close>.
\<close>

definition dict_row :: "string list \<Rightarrow> string list \<Rightarrow> string \<Rightarrow> string option option" where
  "dict_row fieldnames row =
     map_of (rev (zip fieldnames
       (map Some row @ replicate (length fieldnames - length row) None)))"

definition falsy :: "string option \<Rightarrow> bool" where
  "falsy cell \<longleftrightarrow> cell = None \<or> cell = Some []"

text \<open>The parsed transaction, keys \<open>date\<close>, \<open>description\<close>, \<open>amount\<close>.\<close>

record 'd parsed_txn =
  p_date :: 'd
  p_description :: string
  p_amount :: pyfloat

text \<open>The loop over \<open>amount_columns\<close>: the first cell that is not blank, trimmed.\<close>

fun first_amount :: "(string \<Rightarrow> string option option) \<Rightarrow> string list \<Rightarrow> pyexn + string" where
  "first_amount row [] = Inr []"
| "first_amount row (col # cols) =
     (case row col of
        None \<Rightarrow> first_amount row cols
      | Some None \<Rightarrow> Inl (AttributeError none_strip)
      | Some (Some v) \<Rightarrow> if strip v \<noteq> [] then Inr (strip v) else first_amount row cols)"

definition cell_value :: "string option \<Rightarrow> pyval" where
  "cell_value cell = (case cell of None \<Rightarrow> NoneVal | Some s \<Rightarrow> Str s)"

definition parse_row ::
    "(string \<Rightarrow> pyfloat option) \<Rightarrow>
     (string \<Rightarrow> 'd option) \<Rightarrow> (string \<Rightarrow> string \<Rightarrow> 'd option) \<Rightarrow>
     (string \<Rightarrow> string option option) \<Rightarrow> column_mapping \<Rightarrow> pyexn + 'd parsed_txn option" where
  "parse_row to_float dateutil strptime row cm =
     (case row (map_date cm) of
        None \<Rightarrow> Inl (KeyError (repr_str (map_date cm)))
      | Some date_str \<Rightarrow>
     (case row (map_description cm) of
        None \<Rightarrow> Inl (KeyError (repr_str (map_description cm)))
      | Some description \<Rightarrow>
     (case (case map_amount_columns cm of
              Some (col # cols) \<Rightarrow> map_sum id Some (first_amount row (col # cols))
            | _ \<Rightarrow>
               (case map_amount cm of
                  None \<Rightarrow> Inl (KeyError ''None'')
                | Some col \<Rightarrow>
                    (case row col of None \<Rightarrow> Inl (KeyError (repr_str col))
                     | Some cell \<Rightarrow> Inr cell))) of
        Inl e \<Rightarrow> Inl e
      | Inr amount_str \<Rightarrow>
          if falsy date_str \<and> falsy description \<and> falsy amount_str then Inr None
          else
            (case detect_date_format dateutil strptime date_str of
               Inl e \<Rightarrow> Inl e
             | Inr d \<Rightarrow>
            (case description of
               None \<Rightarrow> Inl (AttributeError none_strip)
             | Some desc \<Rightarrow>
            (case parse_amount to_float (cell_value amount_str) of
               Inl e \<Rightarrow> Inl e
             | Inr a \<Rightarrow>
                 Inr (Some \<lparr>p_date = d, p_description = strip desc, p_amount = a\<rparr>)))))))"

section \<open>The ingestion parser\<close>

fun show_nat :: "nat \<Rightarrow> string" where
  "show_nat n = (if n < 10 then [hex_digit n] else show_nat (n div 10) @ [hex_digit (n mod 10)])"

text \<open>The exceptions the loop of \<open>parse_csv\<close> catches.\<close>

fun caught :: "pyexn \<Rightarrow> bool" where
  "caught (ValueError m) = True"
| "caught (KeyError m) = True"
| "caught (AttributeError m) = False"

record 'd parse_result =
  transactions :: "'d parsed_txn list"
  filename :: string
  row_count :: nat
  errors :: "string list"
  res_column_mapping :: column_mapping

function parse_rows ::
    "(string \<Rightarrow> pyfloat option) \<Rightarrow>
     (string \<Rightarrow> 'd option) \<Rightarrow> (string \<Rightarrow> string \<Rightarrow> 'd option) \<Rightarrow> string list \<Rightarrow>
     column_mapping \<Rightarrow> string list list \<Rightarrow> nat \<Rightarrow> 'd parsed_txn list \<Rightarrow> string list \<Rightarrow>
     pyexn + ('d parsed_txn list \<times> string list)" where
  "parse_rows to_float dateutil strptime fieldnames cm [] row_num txns errs = Inr (txns, errs)"
| "parse_rows to_float dateutil strptime fieldnames cm (row # rows) row_num txns errs =
     (let row_num = row_num + 1
      in case parse_row to_float dateutil strptime (dict_row fieldnames row) cm of
           Inr (Some transaction) \<Rightarrow>
             parse_rows to_float dateutil strptime fieldnames cm rows row_num (txns @ [transaction]) errs
         | Inr None \<Rightarrow> parse_rows to_float dateutil strptime fieldnames cm rows row_num txns errs
         | Inl e \<Rightarrow>
             if caught e
             then parse_rows to_float dateutil strptime fieldnames cm rows row_num txns
                    (errs @ [''Row '' @ show_nat row_num @ '': '' @ exn_str e])
             else Inl e)"
  by pat_completeness auto
termination
  by (relation "measure (\<lambda>(to_float, dateutil, strptime, fieldnames, cm, rows, row_num, txns, errs).
        length rows)") auto

text \<open>
  \<open>parse_csv\<close> on the rows that \<open>csv.reader\<close> yields for the file (the first one is the
  header row); \<open>csv.DictReader\<close> passes over rows without any field.
\<close>

definition parse_csv ::
    "(string \<Rightarrow> pyfloat option) \<Rightarrow>
     (string \<Rightarrow> 'd option) \<Rightarrow> (string \<Rightarrow> string \<Rightarrow> 'd option) \<Rightarrow> string list list \<Rightarrow>
     string option \<Rightarrow> pyexn + 'd parse_result" where
  "parse_csv to_float dateutil strptime table fname =
     (case table of
        [] \<Rightarrow> Inl (ValueError ''CSV file is empty or has no headers'')
      | fieldnames # rows \<Rightarrow>
          if fieldnames = [] then Inl (ValueError ''CSV file is empty or has no headers'')
          else
            (case detect_columns fieldnames of
               Inl e \<Rightarrow> Inl e
             | Inr cm \<Rightarrow>
                 (case parse_rows to_float dateutil strptime fieldnames cm
                         (filter (\<lambda>row. row \<noteq> []) rows) 1 [] [] of
                    Inl e \<Rightarrow> Inl e
                  | Inr (txns, errs) \<Rightarrow>
                      Inr \<lparr>transactions = txns,
                           filename = (case fname of None \<Rightarrow> ''unknown.csv''
                                       | Some f \<Rightarrow> if f = [] then ''unknown.csv'' else f),
                           row_count = length txns, errors = errs,
                           res_column_mapping = cm\<rparr>)))"

section \<open>Library functions for worked examples\<close>

text \<open>
  Stand-ins for the external date library and for \<open>float\<close> in the worked examples. The
  first reads the calendar dates written \<open>YYYY-MM-DD\<close>, which the library reads too, and
  nothing else. The second reads a plain decimal text (optional sign, digits, optional
  fraction) whose value binary64 holds exactly, such as \<open>0.00\<close>, \<open>12.50\<close> or \<open>50.00\<close>, where
  \<open>float\<close> returns that very value; it is used at such texts only.
\<close>

definition digits_int :: "string \<Rightarrow> int" where
  "digits_int s = foldl (\<lambda>v c. 10 * v + int (digit_value c)) 0 s"

definition days_in_month :: "int \<Rightarrow> int \<Rightarrow> int" where
  "days_in_month y m =
     (if m = 2 then (if y mod 4 = 0 \<and> (y mod 100 \<noteq> 0 \<or> y mod 400 = 0) then 29 else 28)
      else if m \<in> set [4, 6, 9, 11] then 30 else 31)"

definition iso_date :: "string \<Rightarrow> (int \<times> int \<times> int) option" where
  "iso_date s =
     (let y = digits_int (take 4 s); m = digits_int (take 2 (drop 5 s)); d = digits_int (drop 8 s)
      in if length s = 10 \<and> s ! 4 = CHR ''-'' \<and> s ! 7 = CHR ''-''
            \<and> list_all is_digit (take 4 s @ take 2 (drop 5 s) @ drop 8 s)
            \<and> 1 \<le> y \<and> 1 \<le> m \<and> m \<le> 12 \<and> 1 \<le> d \<and> d \<le> days_in_month y m
         then Some (y, m, d) else None)"

definition example_dateutil :: "string \<Rightarrow> (int \<times> int \<times> int) option" where
  "example_dateutil s = iso_date (strip s)"

definition example_strptime :: "string \<Rightarrow> string \<Rightarrow> (int \<times> int \<times> int) option" where
  "example_strptime s fmt = (if fmt = ''%Y-%m-%d'' then iso_date s else None)"

definition plain_decimal :: "string \<Rightarrow> (int \<times> nat) option" where
  "plain_decimal s =
     (let ip = takeWhile is_digit s
      in case dropWhile is_digit s of
           [] \<Rightarrow> if ip = [] then None else Some (digits_int ip, 0)
         | c # fp \<Rightarrow>
             if c = CHR ''.'' \<and> list_all is_digit fp \<and> (ip \<noteq> [] \<or> fp \<noteq> [])
             then Some (digits_int (ip @ fp), length fp) else None)"

definition example_float :: "string \<Rightarrow> pyfloat option" where
  "example_float s =
     (case (case strip s of CHR ''-'' # t \<Rightarrow> (True, t) | CHR ''+'' # t \<Rightarrow> (False, t)
             | t \<Rightarrow> (False, t)) of
        (negative, t) \<Rightarrow>
          (case plain_decimal t of
             None \<Rightarrow> None
           | Some (n, k) \<Rightarrow>
               if 5 ^ k dvd n \<and> n div 5 ^ k < 2 ^ 53
               then Some (if negative then float_neg (Finite (real_of_int (n div 5 ^ k) / 2 ^ k))
                          else Finite (real_of_int (n div 5 ^ k) / 2 ^ k))
               else None))"

section \<open>Facts about lists and store updates\<close>

lemma length_update_one: "length (update_one P f xs) = length xs"
  by (induction xs) auto

lemma map_update_one: "(\<And>x. g (f x) = g x) \<Longrightarrow> map g (update_one P f xs) = map g xs"
  by (induction xs) auto

lemma update_one_none: "\<forall>x\<in>set xs. \<not> P x \<Longrightarrow> update_one P f xs = xs"
  by (induction xs) auto

lemma update_one_distinct:
  "distinct (map k xs) \<Longrightarrow>
   update_one (\<lambda>r. k r = i) g xs = map (\<lambda>r. if k r = i then g r else r) xs"
proof (induction xs)
  case Nil
  then show ?case by simp
next
  case (Cons x xs)
  show ?case
  proof (cases "k x = i")
    case True
    with Cons.prems have "\<forall>y\<in>set xs. k y \<noteq> i" by (auto simp: image_iff)
    then have "map (\<lambda>r. if k r = i then g r else r) xs = xs"
      by (induction xs) auto
    with True show ?thesis by simp
  next
    case False
    with Cons show ?thesis by simp
  qed
qed

lemma find_filter: "find P xs = (case filter P xs of [] \<Rightarrow> None | x # _ \<Rightarrow> Some x)"
  by (induction xs) auto

lemma sort_key_head:
  fixes f :: "'a \<Rightarrow> 'b::linorder"
  assumes "\<forall>u\<in>set us. f w < f u" and "\<forall>v\<in>set vs. f w \<le> f v"
  shows "\<exists>rest. sort_key f (us @ w # vs) = w # rest"
  using assms(1)
proof (induction us)
  case Nil
  have "insort_key f w (sort_key f vs) = w # sort_key f vs"
    using assms(2) by (intro insort_is_Cons) simp
  then show ?case by simp
next
  case (Cons u us)
  then obtain rest where r: "sort_key f (us @ w # vs) = w # rest" by auto
  from Cons.prems have "\<not> f u \<le> f w" by auto
  with r show ?case by simp
qed

lemma find_sort_key_first_min:
  fixes f :: "'a \<Rightarrow> 'b::linorder"
  assumes "P w" and "\<forall>r\<in>set as. P r \<longrightarrow> f w < f r" and "\<forall>r\<in>set bs. P r \<longrightarrow> f w \<le> f r"
  shows "find P (sort_key f (as @ w # bs)) = Some w"
proof -
  have "filter P (as @ w # bs) = filter P as @ w # filter P bs"
    using assms(1) by simp
  moreover have "\<exists>rest. sort_key f (filter P as @ w # filter P bs) = w # rest"
    using assms(2,3) by (intro sort_key_head) auto
  ultimately obtain rest where "filter P (sort_key f (as @ w # bs)) = w # rest"
    by (auto simp: filter_sort)
  then show ?thesis by (simp add: find_filter)
qed

lemma first_min_exists:
  fixes f :: "'a \<Rightarrow> 'b::linorder"
  assumes "\<exists>x\<in>set xs. P x"
  shows "\<exists>as w bs. xs = as @ w # bs \<and> P w \<and> (\<forall>r\<in>set as. P r \<longrightarrow> f w < f r)
            \<and> (\<forall>r\<in>set bs. P r \<longrightarrow> f w \<le> f r)"
  using assms
proof (induction xs)
  case Nil
  then show ?case by simp
next
  case (Cons x xs)
  show ?case
  proof (cases "\<exists>y\<in>set xs. P y")
    case False
    with Cons.prems have "P x" by auto
    with False have "x # xs = [] @ x # xs \<and> P x \<and> (\<forall>r\<in>set []. P r \<longrightarrow> f x < f r)
        \<and> (\<forall>r\<in>set xs. P r \<longrightarrow> f x \<le> f r)" by auto
    then show ?thesis by blast
  next
    case True
    with Cons.IH obtain as w bs where d: "xs = as @ w # bs" "P w"
      "\<forall>r\<in>set as. P r \<longrightarrow> f w < f r" "\<forall>r\<in>set bs. P r \<longrightarrow> f w \<le> f r" by blast
    show ?thesis
    proof (cases "P x \<and> f x \<le> f w")
      case True
      with d have "x # xs = [] @ x # xs \<and> P x \<and> (\<forall>r\<in>set []. P r \<longrightarrow> f x < f r)
        \<and> (\<forall>r\<in>set xs. P r \<longrightarrow> f x \<le> f r)" by fastforce
      then show ?thesis by blast
    next
      case False
      with d have "x # xs = (x # as) @ w # bs \<and> P w \<and> (\<forall>r\<in>set (x # as). P r \<longrightarrow> f w < f r)
        \<and> (\<forall>r\<in>set bs. P r \<longrightarrow> f w \<le> f r)" by auto
      then show ?thesis by blast
    qed
  qed
qed

lemma find_sort_key_SomeD:
  fixes f :: "'a \<Rightarrow> 'b::linorder"
  assumes "find P (sort_key f xs) = Some w"
  shows "\<exists>as bs. xs = as @ w # bs \<and> P w \<and> (\<forall>r\<in>set as. P r \<longrightarrow> f w < f r)
            \<and> (\<forall>r\<in>set bs. P r \<longrightarrow> f w \<le> f r)"
proof -
  from assms have "find P (sort_key f xs) \<noteq> None" by simp
  then have "\<exists>x\<in>set xs. P x" by (auto simp: find_None_iff)
  from first_min_exists[OF this, of f] obtain as w' bs where d: "xs = as @ w' # bs" "P w'"
      "\<forall>r\<in>set as. P r \<longrightarrow> f w' < f r" "\<forall>r\<in>set bs. P r \<longrightarrow> f w' \<le> f r" by blast
  then have "find P (sort_key f xs) = Some w'"
    using find_sort_key_first_min[of P w' as f bs] by simp
  with assms have "w' = w" by simp
  with d show ?thesis by blast
qed

section \<open>Properties of learning\<close>

definition costco_rule :: rule where
  "costco_rule = \<lparr>rule_id = 1, pattern = ''COSTCO WHOLESALE'', category_id = 1,
                   match_type = ''contains'', created_date = 0, last_used = 0, use_count = 1\<rparr>"

text \<open>
  Claim C1. Learning a category for a description whose merchant pattern already has a
  \<open>contains\<close> rule with another category rewrites the stored rule (new category,
  refreshed \<open>last_used\<close>, \<open>use_count\<close> one higher), and the rule handed back to the caller
  should carry the new category. Evaluated on a store that holds the rule
  \<open>COSTCO WHOLESALE \<mapsto> 1\<close>, learning category 2 for \<open>COSTCO WHOLESALE #123\<close> at time 5:
  the stored rule is rewritten as claimed, but the rule handed back is the document as
  it was read before the update, with category 1.
\<close>

theorem learn_returns_rule_read_before_update:
  "snd (learn_from_categorization 5 [costco_rule] ''COSTCO WHOLESALE #123'' 2)
     = [costco_rule\<lparr>category_id := 2, last_used := 5, use_count := 2\<rparr>]
   \<and> fst (learn_from_categorization 5 [costco_rule] ''COSTCO WHOLESALE #123'' 2) = costco_rule
   \<and> category_id (fst (learn_from_categorization 5 [costco_rule] ''COSTCO WHOLESALE #123'' 2)) = 1"
  by code_simp

section \<open>Properties of classification and learning\<close>

definition is_exact_for :: "string \<Rightarrow> rule \<Rightarrow> bool" where
  "is_exact_for d r \<longleftrightarrow> match_type r = ''exact'' \<and> pattern r = d"

definition is_contains_for :: "string \<Rightarrow> rule \<Rightarrow> bool" where
  "is_contains_for d r \<longleftrightarrow> match_type r = ''contains'' \<and> str_in (upper (pattern r)) d"

definition is_fuzzy :: "rule \<Rightarrow> bool" where
  "is_fuzzy r \<longleftrightarrow> match_type r = ''fuzzy''"

definition fuzzy_score :: "(string \<Rightarrow> string \<Rightarrow> nat) \<Rightarrow> string \<Rightarrow> rule \<Rightarrow> nat" where
  "fuzzy_score ratio d r = ratio (upper (pattern r)) d"

lemma find_first: "find P xs = Some x \<longleftrightarrow> (\<exists>as bs. xs = as @ x # bs \<and> P x \<and> (\<forall>a\<in>set as. \<not> P a))"
proof (induction xs)
  case Nil
  then show ?case by simp
next
  case (Cons y ys)
  show ?case
  proof (cases "P y")
    case True
    have "(\<exists>as bs. y # ys = as @ x # bs \<and> P x \<and> (\<forall>a\<in>set as. \<not> P a)) \<longleftrightarrow> y = x"
    proof
      assume "\<exists>as bs. y # ys = as @ x # bs \<and> P x \<and> (\<forall>a\<in>set as. \<not> P a)"
      then obtain as bs where d: "y # ys = as @ x # bs" "\<forall>a\<in>set as. \<not> P a" by blast
      with True show "y = x" by (cases as) auto
    next
      assume "y = x"
      with True have "y # ys = [] @ x # ys \<and> P x \<and> (\<forall>a\<in>set []. \<not> P a)" by simp
      then show "\<exists>as bs. y # ys = as @ x # bs \<and> P x \<and> (\<forall>a\<in>set as. \<not> P a)" by blast
    qed
    with True show ?thesis by auto
  next
    case False
    have "(\<exists>as bs. y # ys = as @ x # bs \<and> P x \<and> (\<forall>a\<in>set as. \<not> P a))
        \<longleftrightarrow> (\<exists>as bs. ys = as @ x # bs \<and> P x \<and> (\<forall>a\<in>set as. \<not> P a))"
    proof
      assume "\<exists>as bs. y # ys = as @ x # bs \<and> P x \<and> (\<forall>a\<in>set as. \<not> P a)"
      then obtain as bs where d: "y # ys = as @ x # bs" "P x" "\<forall>a\<in>set as. \<not> P a" by blast
      with False obtain as' where "as = y # as'" by (cases as) auto
      with d have "ys = as' @ x # bs \<and> P x \<and> (\<forall>a\<in>set as'. \<not> P a)" by auto
      then show "\<exists>as bs. ys = as @ x # bs \<and> P x \<and> (\<forall>a\<in>set as. \<not> P a)" by blast
    next
      assume "\<exists>as bs. ys = as @ x # bs \<and> P x \<and> (\<forall>a\<in>set as. \<not> P a)"
      then obtain as bs where d: "ys = as @ x # bs" "P x" "\<forall>a\<in>set as. \<not> P a" by blast
      with False have "y # ys = (y # as) @ x # bs \<and> P x \<and> (\<forall>a\<in>set (y # as). \<not> P a)" by simp
      then show "\<exists>as bs. y # ys = as @ x # bs \<and> P x \<and> (\<forall>a\<in>set as. \<not> P a)" by blast
    qed
    with False Cons.IH show ?thesis by simp
  qed
qed

lemma exact_match_hit:
  assumes "rules = as @ r # bs" "is_exact_for d r" "\<forall>a\<in>set as. \<not> is_exact_for d a"
  shows "exact_match now rules d =
     Some (\<lparr>res_category_id = category_id r, confidence = 1, res_match_type = ''exact''\<rparr>,
           update_rule_usage now (rule_id r) rules)"
proof -
  have "find (\<lambda>r. pattern r = d \<and> match_type r = ''exact'') rules = Some r"
    unfolding find_first using assms by (auto simp: is_exact_for_def)
  then show ?thesis by (simp add: exact_match_def)
qed

lemma exact_match_miss:
  "exact_match now rules d = None \<longleftrightarrow> (\<forall>r\<in>set rules. \<not> is_exact_for d r)"
proof -
  have "exact_match now rules d = None
      \<longleftrightarrow> find (\<lambda>r. pattern r = d \<and> match_type r = ''exact'') rules = None"
    by (simp add: exact_match_def split: option.splits)
  then show ?thesis by (auto simp: find_None_iff is_exact_for_def)
qed

lemma contains_rules_find:
  assumes "rules = as @ w # bs" "is_contains_for d w"
    "\<forall>a\<in>set as. is_contains_for d a \<longrightarrow> use_count a < use_count w"
    "\<forall>b\<in>set bs. is_contains_for d b \<longrightarrow> use_count b \<le> use_count w"
  shows "find (\<lambda>r. str_in (upper (pattern r)) d) (contains_rules rules) = Some w"
proof -
  let ?C = "\<lambda>r. match_type r = ''contains''"
  have "filter ?C rules = filter ?C as @ w # filter ?C bs"
    using assms(1,2) by (simp add: is_contains_for_def)
  moreover have "find (\<lambda>r. str_in (upper (pattern r)) d)
      (sort_key (\<lambda>r. - use_count r) (filter ?C as @ w # filter ?C bs)) = Some w"
    using assms(2,3,4) by (intro find_sort_key_first_min) (auto simp: is_contains_for_def)
  ultimately show ?thesis by (simp add: contains_rules_def)
qed

lemma contains_match_hit:
  assumes "rules = as @ w # bs" "is_contains_for d w"
    "\<forall>a\<in>set as. is_contains_for d a \<longrightarrow> use_count a < use_count w"
    "\<forall>b\<in>set bs. is_contains_for d b \<longrightarrow> use_count b \<le> use_count w"
  shows "contains_match now rules d =
     Some (\<lparr>res_category_id = category_id w, confidence = 9 / 10, res_match_type = ''contains''\<rparr>,
           update_rule_usage now (rule_id w) rules)"
  using contains_rules_find[OF assms] by (simp add: contains_match_def)

lemma contains_match_miss:
  "contains_match now rules d = None \<longleftrightarrow> (\<forall>r\<in>set rules. \<not> is_contains_for d r)"
proof -
  have "contains_match now rules d = None
      \<longleftrightarrow> find (\<lambda>r. str_in (upper (pattern r)) d) (contains_rules rules) = None"
    by (simp add: contains_match_def split: option.splits)
  then show ?thesis by (auto simp: find_None_iff contains_rules_def is_contains_for_def)
qed

lemma contains_winner_exists:
  assumes "\<exists>r\<in>set rules. is_contains_for d r"
  shows "\<exists>as w bs. rules = as @ w # bs \<and> is_contains_for d w
     \<and> (\<forall>a\<in>set as. is_contains_for d a \<longrightarrow> use_count a < use_count w)
     \<and> (\<forall>b\<in>set bs. is_contains_for d b \<longrightarrow> use_count b \<le> use_count w)"
  using first_min_exists[OF assms, of "\<lambda>r. - use_count r"] by simp

lemma first_exists:
  assumes "\<exists>r\<in>set xs. P r"
  shows "\<exists>as r bs. xs = as @ r # bs \<and> P r \<and> (\<forall>a\<in>set as. \<not> P a)"
proof -
  from assms obtain r where "find P xs = Some r"
    by (cases "find P xs") (auto simp: find_None_iff)
  then show ?thesis unfolding find_first by blast
qed


lemma fuzzy_scan_result:
  "if \<exists>x\<in>set xs. fuzzy_score ratio d x > bs
   then \<exists>as b cs. xs = as @ b # cs
          \<and> (\<forall>a\<in>set as. fuzzy_score ratio d a < fuzzy_score ratio d b)
          \<and> (\<forall>c\<in>set cs. fuzzy_score ratio d c \<le> fuzzy_score ratio d b)
          \<and> bs < fuzzy_score ratio d b
          \<and> fuzzy_scan ratio d xs (bm, bs, br)
              = (Some (category_id b), fuzzy_score ratio d b, Some b)
   else fuzzy_scan ratio d xs (bm, bs, br) = (bm, bs, br)"
proof (induction xs arbitrary: bm bs br)
  case Nil
  then show ?case by simp
next
  case (Cons x xs)
  let ?s = "fuzzy_score ratio d"
  show ?case
  proof (cases "?s x > bs")
    case True
    then have step: "fuzzy_scan ratio d (x # xs) (bm, bs, br)
        = fuzzy_scan ratio d xs (Some (category_id x), ?s x, Some x)"
      by (simp add: fuzzy_score_def)
    show ?thesis
    proof (cases "\<exists>y\<in>set xs. ?s y > ?s x")
      case better: True
      with Cons.IH[of "?s x" "Some (category_id x)" "Some x"]
      obtain as b cs where d: "xs = as @ b # cs" "\<forall>a\<in>set as. ?s a < ?s b"
        "\<forall>c\<in>set cs. ?s c \<le> ?s b" "?s x < ?s b"
        "fuzzy_scan ratio d xs (Some (category_id x), ?s x, Some x)
           = (Some (category_id b), ?s b, Some b)"
        by auto
      with True step have "x # xs = (x # as) @ b # cs \<and> (\<forall>a\<in>set (x # as). ?s a < ?s b)
          \<and> (\<forall>c\<in>set cs. ?s c \<le> ?s b) \<and> bs < ?s b
          \<and> fuzzy_scan ratio d (x # xs) (bm, bs, br) = (Some (category_id b), ?s b, Some b)"
        by auto
      then have "\<exists>as b cs. x # xs = as @ b # cs \<and> (\<forall>a\<in>set as. ?s a < ?s b)
          \<and> (\<forall>c\<in>set cs. ?s c \<le> ?s b) \<and> bs < ?s b
          \<and> fuzzy_scan ratio d (x # xs) (bm, bs, br) = (Some (category_id b), ?s b, Some b)"
        by blast
      with True show ?thesis by auto
    next
      case nobetter: False
      with Cons.IH[of "?s x" "Some (category_id x)" "Some x"]
      have "fuzzy_scan ratio d xs (Some (category_id x), ?s x, Some x)
           = (Some (category_id x), ?s x, Some x)" by auto
      with True step nobetter have "x # xs = [] @ x # xs \<and> (\<forall>a\<in>set []. ?s a < ?s x)
          \<and> (\<forall>c\<in>set xs. ?s c \<le> ?s x) \<and> bs < ?s x
          \<and> fuzzy_scan ratio d (x # xs) (bm, bs, br) = (Some (category_id x), ?s x, Some x)"
        by (auto simp: not_less)
      then have "\<exists>as b cs. x # xs = as @ b # cs \<and> (\<forall>a\<in>set as. ?s a < ?s b)
          \<and> (\<forall>c\<in>set cs. ?s c \<le> ?s b) \<and> bs < ?s b
          \<and> fuzzy_scan ratio d (x # xs) (bm, bs, br) = (Some (category_id b), ?s b, Some b)"
        by blast
      with True show ?thesis by auto
    qed
  next
    case False
    then have step: "fuzzy_scan ratio d (x # xs) (bm, bs, br) = fuzzy_scan ratio d xs (bm, bs, br)"
      by (simp add: fuzzy_score_def)
    show ?thesis
    proof (cases "\<exists>y\<in>set xs. ?s y > bs")
      case better: True
      with Cons.IH[of bs bm br]
      obtain as b cs where d: "xs = as @ b # cs" "\<forall>a\<in>set as. ?s a < ?s b"
        "\<forall>c\<in>set cs. ?s c \<le> ?s b" "bs < ?s b"
        "fuzzy_scan ratio d xs (bm, bs, br) = (Some (category_id b), ?s b, Some b)"
        by auto
      with False step have "x # xs = (x # as) @ b # cs \<and> (\<forall>a\<in>set (x # as). ?s a < ?s b)
          \<and> (\<forall>c\<in>set cs. ?s c \<le> ?s b) \<and> bs < ?s b
          \<and> fuzzy_scan ratio d (x # xs) (bm, bs, br) = (Some (category_id b), ?s b, Some b)"
        by auto
      then have "\<exists>as b cs. x # xs = as @ b # cs \<and> (\<forall>a\<in>set as. ?s a < ?s b)
          \<and> (\<forall>c\<in>set cs. ?s c \<le> ?s b) \<and> bs < ?s b
          \<and> fuzzy_scan ratio d (x # xs) (bm, bs, br) = (Some (category_id b), ?s b, Some b)"
        by blast
      with better show ?thesis by auto
    next
      case nobetter: False
      with Cons.IH[of bs bm br] have "fuzzy_scan ratio d xs (bm, bs, br) = (bm, bs, br)" by auto
      with False step nobetter show ?thesis by auto
    qed
  qed
qed


lemma fuzzy_scan_stays:
  "\<forall>c\<in>set cs. fuzzy_score ratio d c \<le> bs \<Longrightarrow> fuzzy_scan ratio d cs (bm, bs, br) = (bm, bs, br)"
  by (induction cs) (auto simp: fuzzy_score_def Let_def)

lemma fuzzy_scan_first_max:
  assumes "\<forall>a\<in>set as. fuzzy_score ratio d a < fuzzy_score ratio d b"
    and "\<forall>c\<in>set cs. fuzzy_score ratio d c \<le> fuzzy_score ratio d b"
    and "bs < fuzzy_score ratio d b"
  shows "fuzzy_scan ratio d (as @ b # cs) (bm, bs, br)
           = (Some (category_id b), fuzzy_score ratio d b, Some b)"
  using assms(1,3)
proof (induction as arbitrary: bm bs br)
  case Nil
  then have "fuzzy_scan ratio d ([] @ b # cs) (bm, bs, br)
      = fuzzy_scan ratio d cs (Some (category_id b), fuzzy_score ratio d b, Some b)"
    by (simp add: fuzzy_score_def)
  with assms(2) show ?case by (simp add: fuzzy_scan_stays)
next
  case (Cons a as)
  from Cons.prems have lt: "fuzzy_score ratio d a < fuzzy_score ratio d b"
    and rest: "\<forall>a\<in>set as. fuzzy_score ratio d a < fuzzy_score ratio d b" by auto
  show ?case
  proof (cases "fuzzy_score ratio d a > bs")
    case True
    then have "fuzzy_scan ratio d ((a # as) @ b # cs) (bm, bs, br)
      = fuzzy_scan ratio d (as @ b # cs) (Some (category_id a), fuzzy_score ratio d a, Some a)"
      by (simp add: fuzzy_score_def)
    with Cons.IH[OF rest lt] show ?thesis by simp
  next
    case False
    then have "fuzzy_scan ratio d ((a # as) @ b # cs) (bm, bs, br)
      = fuzzy_scan ratio d (as @ b # cs) (bm, bs, br)"
      by (simp add: fuzzy_score_def)
    with Cons.IH[OF rest Cons.prems(2)] show ?thesis by simp
  qed
qed

lemma fuzzy_match_hit:
  assumes "rules = as @ b # cs" "is_fuzzy b"
    "\<forall>a\<in>set as. is_fuzzy a \<longrightarrow> fuzzy_score ratio d a < fuzzy_score ratio d b"
    "\<forall>c\<in>set cs. is_fuzzy c \<longrightarrow> fuzzy_score ratio d c \<le> fuzzy_score ratio d b"
    "80 \<le> fuzzy_score ratio d b"
  shows "fuzzy_match ratio now rules d =
     Some (\<lparr>res_category_id = category_id b, confidence = real (fuzzy_score ratio d b) / 100,
            res_match_type = ''fuzzy''\<rparr>,
           update_rule_usage now (rule_id b) rules)"
proof -
  let ?F = "\<lambda>r. match_type r = ''fuzzy''"
  have f: "filter ?F rules = filter ?F as @ b # filter ?F cs"
    using assms(1,2) by (simp add: is_fuzzy_def)
  have "fuzzy_scan ratio d (filter ?F as @ b # filter ?F cs) (None, 0, None)
      = (Some (category_id b), fuzzy_score ratio d b, Some b)"
    using assms(3,4,5) by (intro fuzzy_scan_first_max) (auto simp: is_fuzzy_def)
  with f assms(5) show ?thesis by (simp add: fuzzy_match_def)
qed

lemma fuzzy_match_miss:
  assumes "\<forall>r\<in>set rules. is_fuzzy r \<longrightarrow> fuzzy_score ratio d r < 80"
  shows "fuzzy_match ratio now rules d = None"
proof -
  let ?fs = "filter (\<lambda>r. match_type r = ''fuzzy'') rules"
  from assms have low: "\<forall>r\<in>set ?fs. fuzzy_score ratio d r < 80" by (simp add: is_fuzzy_def)
  show ?thesis
  proof (cases "\<exists>x\<in>set ?fs. fuzzy_score ratio d x > 0")
    case True
    with fuzzy_scan_result[where xs="?fs" and ratio=ratio and d=d and bs=0 and bm=None and br=None]
    obtain as b cs where d: "?fs = as @ b # cs"
       "fuzzy_scan ratio d ?fs (None, 0, None) = (Some (category_id b), fuzzy_score ratio d b, Some b)"
      by auto
    from d(1) have "b \<in> set ?fs" by (metis in_set_conv_decomp)
    with low have "fuzzy_score ratio d b < 80" by blast
    with d(2) show ?thesis by (simp add: fuzzy_match_def)
  next
    case False
    with fuzzy_scan_result[where xs="?fs" and ratio=ratio and d=d and bs=0 and bm=None and br=None]
    have "fuzzy_scan ratio d ?fs (None, 0, None) = (None, 0, None)" by auto
    then show ?thesis by (simp add: fuzzy_match_def)
  qed
qed

lemma fuzzy_winner_exists:
  assumes "\<exists>r\<in>set rules. is_fuzzy r \<and> 80 \<le> fuzzy_score ratio d r"
  shows "\<exists>as b cs. rules = as @ b # cs \<and> is_fuzzy b
     \<and> (\<forall>a\<in>set as. is_fuzzy a \<longrightarrow> fuzzy_score ratio d a < fuzzy_score ratio d b)
     \<and> (\<forall>c\<in>set cs. is_fuzzy c \<longrightarrow> fuzzy_score ratio d c \<le> fuzzy_score ratio d b)
     \<and> 80 \<le> fuzzy_score ratio d b"
proof -
  from assms obtain r where r: "r \<in> set rules" "is_fuzzy r" "80 \<le> fuzzy_score ratio d r" by blast
  then have "\<exists>x\<in>set rules. is_fuzzy x" by blast
  from first_min_exists[OF this, of "\<lambda>x. - int (fuzzy_score ratio d x)"]
  obtain as b cs where d: "rules = as @ b # cs" "is_fuzzy b"
    "\<forall>a\<in>set as. is_fuzzy a \<longrightarrow> fuzzy_score ratio d a < fuzzy_score ratio d b"
    "\<forall>c\<in>set cs. is_fuzzy c \<longrightarrow> fuzzy_score ratio d c \<le> fuzzy_score ratio d b"
    by auto
  from r d have "fuzzy_score ratio d r \<le> fuzzy_score ratio d b" by auto
  with r(3) have "80 \<le> fuzzy_score ratio d b" by simp
  with d show ?thesis by blast
qed

text \<open>
  Claim C3. For every description and every rule store, \<open>categorize\<close> tries the tiers in
  the order exact, contains, fuzzy and stops at the first hit. With \<open>d\<close> the trimmed,
  upper-cased description:
  \<^item> if some exact rule has pattern \<open>d\<close>, the result is the category of the first such rule
    in enumeration order, with confidence 1 and type \<open>exact\<close>;
  \<^item> otherwise, if some contains rule's upper-cased pattern occurs in \<open>d\<close>, the result is
    the category of the matching rule of highest use count (the first in enumeration
    order among equals), with confidence 0.9 and type \<open>contains\<close>; for a pattern stored in
    upper case, as the learning operation stores it, the upper-cased pattern is the
    pattern itself;
  \<^item> otherwise, if some fuzzy rule scores at least 80, the result is the category of the
    best-scoring fuzzy rule (the first in enumeration order among equals), with
    confidence score / 100 and type \<open>fuzzy\<close>;
  \<^item> otherwise the result is category 0, confidence 0, type \<open>none\<close>, and the store is
    unchanged.
\<close>

theorem categorize_tier_order:
  fixes ratio :: "string \<Rightarrow> string \<Rightarrow> nat"
  shows
  "((\<exists>r\<in>set rules. is_exact_for (upper (strip description)) r) \<longrightarrow>
      (\<exists>as r bs. rules = as @ r # bs \<and> is_exact_for (upper (strip description)) r
         \<and> (\<forall>a\<in>set as. \<not> is_exact_for (upper (strip description)) a)
         \<and> fst (categorize ratio now rules description)
             = \<lparr>res_category_id = category_id r, confidence = 1, res_match_type = ''exact''\<rparr>))
   \<and> ((\<forall>r\<in>set rules. \<not> is_exact_for (upper (strip description)) r)
      \<and> (\<exists>r\<in>set rules. is_contains_for (upper (strip description)) r) \<longrightarrow>
      (\<exists>as r bs. rules = as @ r # bs \<and> is_contains_for (upper (strip description)) r
         \<and> (\<forall>a\<in>set as. is_contains_for (upper (strip description)) a
                \<longrightarrow> use_count a < use_count r)
         \<and> (\<forall>b\<in>set bs. is_contains_for (upper (strip description)) b
                \<longrightarrow> use_count b \<le> use_count r)
         \<and> fst (categorize ratio now rules description)
             = \<lparr>res_category_id = category_id r, confidence = 9 / 10,
                res_match_type = ''contains''\<rparr>))
   \<and> ((\<forall>r\<in>set rules. \<not> is_exact_for (upper (strip description)) r)
      \<and> (\<forall>r\<in>set rules. \<not> is_contains_for (upper (strip description)) r)
      \<and> (\<exists>r\<in>set rules. is_fuzzy r \<and> 80 \<le> fuzzy_score ratio (upper (strip description)) r) \<longrightarrow>
      (\<exists>as r bs. rules = as @ r # bs \<and> is_fuzzy r
         \<and> (\<forall>a\<in>set as. is_fuzzy a \<longrightarrow> fuzzy_score ratio (upper (strip description)) a
                < fuzzy_score ratio (upper (strip description)) r)
         \<and> (\<forall>b\<in>set bs. is_fuzzy b \<longrightarrow> fuzzy_score ratio (upper (strip description)) b
                \<le> fuzzy_score ratio (upper (strip description)) r)
         \<and> 80 \<le> fuzzy_score ratio (upper (strip description)) r
         \<and> fst (categorize ratio now rules description)
             = \<lparr>res_category_id = category_id r,
                confidence = real (fuzzy_score ratio (upper (strip description)) r) / 100,
                res_match_type = ''fuzzy''\<rparr>))
   \<and> ((\<forall>r\<in>set rules. \<not> is_exact_for (upper (strip description)) r)
      \<and> (\<forall>r\<in>set rules. \<not> is_contains_for (upper (strip description)) r)
      \<and> (\<forall>r\<in>set rules. is_fuzzy r \<longrightarrow> fuzzy_score ratio (upper (strip description)) r < 80) \<longrightarrow>
      categorize ratio now rules description
        = (\<lparr>res_category_id = 0, confidence = 0, res_match_type = ''none''\<rparr>, rules))"
  (is "?E \<and> ?C \<and> ?F \<and> ?N")
proof -
  let ?d = "upper (strip description)"
  have e: ?E
  proof
    assume "\<exists>r\<in>set rules. is_exact_for ?d r"
    from first_exists[OF this] obtain as r bs where d: "rules = as @ r # bs"
      "is_exact_for ?d r" "\<forall>a\<in>set as. \<not> is_exact_for ?d a" by blast
    from exact_match_hit[OF d, of now]
    have "fst (categorize ratio now rules description)
        = \<lparr>res_category_id = category_id r, confidence = 1, res_match_type = ''exact''\<rparr>"
      by (simp add: categorize_def)
    with d show "\<exists>as r bs. rules = as @ r # bs \<and> is_exact_for ?d r
         \<and> (\<forall>a\<in>set as. \<not> is_exact_for ?d a)
         \<and> fst (categorize ratio now rules description)
             = \<lparr>res_category_id = category_id r, confidence = 1, res_match_type = ''exact''\<rparr>"
      by blast
  qed
  have c: ?C
  proof
    assume a: "(\<forall>r\<in>set rules. \<not> is_exact_for ?d r) \<and> (\<exists>r\<in>set rules. is_contains_for ?d r)"
    then have ex: "exact_match now rules ?d = None" by (simp add: exact_match_miss)
    from a contains_winner_exists[of rules ?d] obtain as w bs where d: "rules = as @ w # bs"
      "is_contains_for ?d w"
      "\<forall>a\<in>set as. is_contains_for ?d a \<longrightarrow> use_count a < use_count w"
      "\<forall>b\<in>set bs. is_contains_for ?d b \<longrightarrow> use_count b \<le> use_count w" by blast
    from contains_match_hit[OF d, of now] ex
    have "fst (categorize ratio now rules description)
        = \<lparr>res_category_id = category_id w, confidence = 9 / 10, res_match_type = ''contains''\<rparr>"
      by (simp add: categorize_def)
    with d show "\<exists>as r bs. rules = as @ r # bs \<and> is_contains_for ?d r
         \<and> (\<forall>a\<in>set as. is_contains_for ?d a \<longrightarrow> use_count a < use_count r)
         \<and> (\<forall>b\<in>set bs. is_contains_for ?d b \<longrightarrow> use_count b \<le> use_count r)
         \<and> fst (categorize ratio now rules description)
             = \<lparr>res_category_id = category_id r, confidence = 9 / 10,
                res_match_type = ''contains''\<rparr>"
      by blast
  qed
  have f: ?F
  proof
    assume a: "(\<forall>r\<in>set rules. \<not> is_exact_for ?d r) \<and> (\<forall>r\<in>set rules. \<not> is_contains_for ?d r)
      \<and> (\<exists>r\<in>set rules. is_fuzzy r \<and> 80 \<le> fuzzy_score ratio ?d r)"
    then have ex: "exact_match now rules ?d = None" and co: "contains_match now rules ?d = None"
      by (simp_all add: exact_match_miss contains_match_miss)
    from a fuzzy_winner_exists[of rules ratio ?d] obtain as b cs where d: "rules = as @ b # cs"
      "is_fuzzy b"
      "\<forall>a\<in>set as. is_fuzzy a \<longrightarrow> fuzzy_score ratio ?d a < fuzzy_score ratio ?d b"
      "\<forall>c\<in>set cs. is_fuzzy c \<longrightarrow> fuzzy_score ratio ?d c \<le> fuzzy_score ratio ?d b"
      "80 \<le> fuzzy_score ratio ?d b" by blast
    from fuzzy_match_hit[OF d, of now] ex co
    have "fst (categorize ratio now rules description)
        = \<lparr>res_category_id = category_id b, confidence = real (fuzzy_score ratio ?d b) / 100,
            res_match_type = ''fuzzy''\<rparr>"
      by (simp add: categorize_def)
    with d show "\<exists>as r bs. rules = as @ r # bs \<and> is_fuzzy r
         \<and> (\<forall>a\<in>set as. is_fuzzy a \<longrightarrow> fuzzy_score ratio ?d a < fuzzy_score ratio ?d r)
         \<and> (\<forall>b\<in>set bs. is_fuzzy b \<longrightarrow> fuzzy_score ratio ?d b \<le> fuzzy_score ratio ?d r)
         \<and> 80 \<le> fuzzy_score ratio ?d r
         \<and> fst (categorize ratio now rules description)
             = \<lparr>res_category_id = category_id r,
                confidence = real (fuzzy_score ratio ?d r) / 100,
                res_match_type = ''fuzzy''\<rparr>"
      by blast
  qed
  have n: ?N
  proof
    assume a: "(\<forall>r\<in>set rules. \<not> is_exact_for ?d r) \<and> (\<forall>r\<in>set rules. \<not> is_contains_for ?d r)
      \<and> (\<forall>r\<in>set rules. is_fuzzy r \<longrightarrow> fuzzy_score ratio ?d r < 80)"
    then have "exact_match now rules ?d = None" "contains_match now rules ?d = None"
      "fuzzy_match ratio now rules ?d = None"
      by (simp_all add: exact_match_miss contains_match_miss fuzzy_match_miss)
    then show "categorize ratio now rules description
        = (\<lparr>res_category_id = 0, confidence = 0, res_match_type = ''none''\<rparr>, rules)"
      by (simp add: categorize_def)
  qed
  from e c f n show ?thesis by blast
qed


definition used :: "nat \<Rightarrow> nat \<Rightarrow> rule \<Rightarrow> rule" where
  "used now i r = (if rule_id r = i then r\<lparr>last_used := now, use_count := use_count r + 1\<rparr> else r)"

lemma update_rule_usage_map:
  "distinct (map rule_id rules) \<Longrightarrow> update_rule_usage now i rules = map (used now i) rules"
  unfolding update_rule_usage_def used_def by (rule update_one_distinct)

lemma used_simps:
  "is_exact_for d (used now i r) = is_exact_for d r"
  "is_contains_for d (used now i r) = is_contains_for d r"
  "is_fuzzy (used now i r) = is_fuzzy r"
  "fuzzy_score ratio d (used now i r) = fuzzy_score ratio d r"
  "category_id (used now i r) = category_id r"
  "rule_id (used now i r) = rule_id r"
  by (simp_all add: used_def is_exact_for_def is_contains_for_def is_fuzzy_def fuzzy_score_def)

lemma used_count:
  "use_count (used now i r) = (if rule_id r = i then use_count r + 1 else use_count r)"
  by (simp add: used_def)

text \<open>
  Claim C6. Classifying the same description twice in a row, with no learning in
  between, gives the same category, match type and confidence both times, although the
  first call has raised the use count of the rule it matched. Documents of the rule
  store have distinct \<open>_id\<close>s, as the database guarantees.
\<close>

theorem categorize_twice_same_result:
  fixes ratio :: "string \<Rightarrow> string \<Rightarrow> nat"
  assumes ids: "distinct (map rule_id rules)"
  shows "fst (categorize ratio now2 (snd (categorize ratio now1 rules description)) description)
       = fst (categorize ratio now1 rules description)"
proof -
  let ?d = "upper (strip description)"
  consider (exact) "\<exists>r\<in>set rules. is_exact_for ?d r"
    | (contains) "\<forall>r\<in>set rules. \<not> is_exact_for ?d r" "\<exists>r\<in>set rules. is_contains_for ?d r"
    | (fuzzy) "\<forall>r\<in>set rules. \<not> is_exact_for ?d r" "\<forall>r\<in>set rules. \<not> is_contains_for ?d r"
        "\<exists>r\<in>set rules. is_fuzzy r \<and> 80 \<le> fuzzy_score ratio ?d r"
    | (none) "\<forall>r\<in>set rules. \<not> is_exact_for ?d r" "\<forall>r\<in>set rules. \<not> is_contains_for ?d r"
        "\<forall>r\<in>set rules. is_fuzzy r \<longrightarrow> fuzzy_score ratio ?d r < 80"
    by (cases "\<exists>r\<in>set rules. is_exact_for ?d r"; cases "\<exists>r\<in>set rules. is_contains_for ?d r"; cases "\<exists>r\<in>set rules. is_fuzzy r \<and> 80 \<le> fuzzy_score ratio ?d r") (auto simp: not_le)
  then show ?thesis
  proof cases
    case exact
    from first_exists[OF this] obtain as r bs where d: "rules = as @ r # bs"
      "is_exact_for ?d r" "\<forall>a\<in>set as. \<not> is_exact_for ?d a" by blast
    let ?h = "used now1 (rule_id r)"
    have first: "categorize ratio now1 rules description
        = (\<lparr>res_category_id = category_id r, confidence = 1, res_match_type = ''exact''\<rparr>,
           map ?h rules)"
      using exact_match_hit[OF d, of now1] ids by (simp add: categorize_def update_rule_usage_map)
    have d': "map ?h rules = map ?h as @ ?h r # map ?h bs" "is_exact_for ?d (?h r)"
      "\<forall>a\<in>set (map ?h as). \<not> is_exact_for ?d a"
      using d by (simp_all add: used_simps)
    from exact_match_hit[OF d', of now2] first show ?thesis
      by (simp add: categorize_def used_simps)
  next
    case contains
    from contains_winner_exists[OF contains(2)] obtain as w bs where d: "rules = as @ w # bs"
      "is_contains_for ?d w"
      "\<forall>a\<in>set as. is_contains_for ?d a \<longrightarrow> use_count a < use_count w"
      "\<forall>b\<in>set bs. is_contains_for ?d b \<longrightarrow> use_count b \<le> use_count w" by blast
    let ?h = "used now1 (rule_id w)"
    from contains(1) have ex: "exact_match now1 rules ?d = None" by (simp add: exact_match_miss)
    have first: "categorize ratio now1 rules description
        = (\<lparr>res_category_id = category_id w, confidence = 9 / 10,
             res_match_type = ''contains''\<rparr>, map ?h rules)"
      using contains_match_hit[OF d, of now1] ex ids
      by (simp add: categorize_def update_rule_usage_map)
    have ex': "exact_match now2 (map ?h rules) ?d = None"
      using contains(1) by (simp add: exact_match_miss used_simps)
    have d': "map ?h rules = map ?h as @ ?h w # map ?h bs" "is_contains_for ?d (?h w)"
      "\<forall>a\<in>set (map ?h as). is_contains_for ?d a \<longrightarrow> use_count a < use_count (?h w)"
      "\<forall>b\<in>set (map ?h bs). is_contains_for ?d b \<longrightarrow> use_count b \<le> use_count (?h w)"
      using d by (auto simp: used_simps used_count)
    from contains_match_hit[OF d', of now2] ex' first show ?thesis
      by (simp add: categorize_def used_simps)
  next
    case fuzzy
    from fuzzy_winner_exists[OF fuzzy(3)] obtain as b cs where d: "rules = as @ b # cs"
      "is_fuzzy b"
      "\<forall>a\<in>set as. is_fuzzy a \<longrightarrow> fuzzy_score ratio ?d a < fuzzy_score ratio ?d b"
      "\<forall>c\<in>set cs. is_fuzzy c \<longrightarrow> fuzzy_score ratio ?d c \<le> fuzzy_score ratio ?d b"
      "80 \<le> fuzzy_score ratio ?d b" by blast
    let ?h = "used now1 (rule_id b)"
    from fuzzy(1,2) have miss: "exact_match now1 rules ?d = None"
      "contains_match now1 rules ?d = None"
      by (simp_all add: exact_match_miss contains_match_miss)
    have first: "categorize ratio now1 rules description
        = (\<lparr>res_category_id = category_id b, confidence = real (fuzzy_score ratio ?d b) / 100,
             res_match_type = ''fuzzy''\<rparr>, map ?h rules)"
      using fuzzy_match_hit[OF d, of now1] miss ids
      by (simp add: categorize_def update_rule_usage_map)
    have miss': "exact_match now2 (map ?h rules) ?d = None"
      "contains_match now2 (map ?h rules) ?d = None"
      using fuzzy(1,2) by (simp_all add: exact_match_miss contains_match_miss used_simps)
    have d': "map ?h rules = map ?h as @ ?h b # map ?h cs" "is_fuzzy (?h b)"
      "\<forall>a\<in>set (map ?h as). is_fuzzy a \<longrightarrow> fuzzy_score ratio ?d a < fuzzy_score ratio ?d (?h b)"
      "\<forall>c\<in>set (map ?h cs). is_fuzzy c \<longrightarrow> fuzzy_score ratio ?d c \<le> fuzzy_score ratio ?d (?h b)"
      "80 \<le> fuzzy_score ratio ?d (?h b)"
      using d by (simp_all add: used_simps)
    from fuzzy_match_hit[OF d', of now2] miss' first show ?thesis
      by (simp add: categorize_def used_simps)
  next
    case none
    then have "exact_match now1 rules ?d = None" "contains_match now1 rules ?d = None"
      "fuzzy_match ratio now1 rules ?d = None"
      "exact_match now2 rules ?d = None" "contains_match now2 rules ?d = None"
      "fuzzy_match ratio now2 rules ?d = None"
      by (simp_all add: exact_match_miss contains_match_miss fuzzy_match_miss)
    then show ?thesis by (simp add: categorize_def)
  qed
qed


definition contains_unique :: "rule list \<Rightarrow> bool" where
  "contains_unique rules \<longleftrightarrow>
     distinct (map pattern (filter (\<lambda>r. match_type r = ''contains'') rules))"

definition relabelled :: "nat \<Rightarrow> int \<Rightarrow> nat \<Rightarrow> rule \<Rightarrow> rule" where
  "relabelled now cid i r =
     (if rule_id r = i
      then r\<lparr>category_id := cid, last_used := now, use_count := use_count r + 1\<rparr> else r)"

lemma relabelled_simps:
  "is_exact_for d (relabelled now cid i r) = is_exact_for d r"
  "is_contains_for d (relabelled now cid i r) = is_contains_for d r"
  "pattern (relabelled now cid i r) = pattern r"
  "match_type (relabelled now cid i r) = match_type r"
  "rule_id (relabelled now cid i r) = rule_id r"
  "category_id (relabelled now cid i r) = (if rule_id r = i then cid else category_id r)"
  by (simp_all add: relabelled_def is_exact_for_def is_contains_for_def)

text \<open>The three outcomes of learning, on a store whose documents have distinct ids.\<close>

lemma learn_cases:
  assumes ids: "distinct (map rule_id rules)"
    and p_def: "p = extract_merchant_pattern (upper (strip description))"
  obtains
    (new) "\<forall>r\<in>set rules. \<not> (pattern r = p \<and> match_type r = ''contains'')"
      "learn_from_categorization now rules description cid =
         (\<lparr>rule_id = fresh_id rules, pattern = p, category_id = cid, match_type = ''contains'',
           created_date = now, last_used = now, use_count = 1\<rparr>,
          rules @ [\<lparr>rule_id = fresh_id rules, pattern = p, category_id = cid,
                    match_type = ''contains'', created_date = now, last_used = now,
                    use_count = 1\<rparr>])"
  | (changed) e where "e \<in> set rules" "pattern e = p" "match_type e = ''contains''"
      "category_id e \<noteq> cid"
      "learn_from_categorization now rules description cid =
         (e, map (relabelled now cid (rule_id e)) rules)"
  | (same) e where "e \<in> set rules" "pattern e = p" "match_type e = ''contains''"
      "category_id e = cid"
      "learn_from_categorization now rules description cid = (e, rules)"
proof (cases "find (\<lambda>r. pattern r = p \<and> match_type r = ''contains'') rules")
  case None
  then have "\<forall>r\<in>set rules. \<not> (pattern r = p \<and> match_type r = ''contains'')"
    by (auto simp: find_None_iff)
  moreover from None have "learn_from_categorization now rules description cid =
         (\<lparr>rule_id = fresh_id rules, pattern = p, category_id = cid, match_type = ''contains'',
           created_date = now, last_used = now, use_count = 1\<rparr>,
          rules @ [\<lparr>rule_id = fresh_id rules, pattern = p, category_id = cid,
                    match_type = ''contains'', created_date = now, last_used = now,
                    use_count = 1\<rparr>])"
    by (simp add: learn_from_categorization_def p_def Let_def)
  ultimately show ?thesis by (rule new)
next
  case (Some e)
  then have e: "e \<in> set rules" "pattern e = p" "match_type e = ''contains''"
    unfolding find_first by auto
  show ?thesis
  proof (cases "category_id e = cid")
    case True
    with Some have "learn_from_categorization now rules description cid = (e, rules)"
      by (simp add: learn_from_categorization_def p_def Let_def)
    with e True show ?thesis by (rule same)
  next
    case False
    with Some have "learn_from_categorization now rules description cid =
         (e, update_one (\<lambda>r. rule_id r = rule_id e)
               (\<lambda>r. r\<lparr>category_id := cid, last_used := now, use_count := use_count r + 1\<rparr>)
               rules)"
      by (simp add: learn_from_categorization_def p_def Let_def)
    also have "update_one (\<lambda>r. rule_id r = rule_id e)
               (\<lambda>r. r\<lparr>category_id := cid, last_used := now, use_count := use_count r + 1\<rparr>)
               rules = map (relabelled now cid (rule_id e)) rules"
      unfolding relabelled_def using ids by (rule update_one_distinct)
    finally show ?thesis using e False by (intro changed) auto
  qed
qed

lemma str_in_Nil: "str_in [] d"
  by (cases d) simp_all

lemma contains_unique_same:
  assumes "contains_unique rules" "r \<in> set rules" "e \<in> set rules"
    "match_type r = ''contains''" "match_type e = ''contains''" "pattern r = pattern e"
  shows "r = e"
proof -
  let ?cs = "filter (\<lambda>r. match_type r = ''contains'') rules"
  from assms have "inj_on pattern (set ?cs)" "r \<in> set ?cs" "e \<in> set ?cs"
    by (simp_all add: contains_unique_def distinct_map)
  with assms(6) show ?thesis by (auto dest: inj_onD)
qed

lemma categorize_contains_category:
  assumes "\<forall>r\<in>set rules. \<not> is_exact_for (upper (strip description)) r"
    and "\<exists>r\<in>set rules. is_contains_for (upper (strip description)) r"
    and "\<forall>r\<in>set rules. is_contains_for (upper (strip description)) r \<longrightarrow> category_id r = cid"
  shows "fst (categorize ratio now rules description)
       = \<lparr>res_category_id = cid, confidence = 9 / 10, res_match_type = ''contains''\<rparr>"
proof -
  let ?d = "upper (strip description)"
  from assms(1) have ex: "exact_match now rules ?d = None" by (simp add: exact_match_miss)
  from contains_winner_exists[OF assms(2)] obtain as w bs where d: "rules = as @ w # bs"
      "is_contains_for ?d w"
      "\<forall>a\<in>set as. is_contains_for ?d a \<longrightarrow> use_count a < use_count w"
      "\<forall>b\<in>set bs. is_contains_for ?d b \<longrightarrow> use_count b \<le> use_count w" by blast
  from d(1,2) assms(3) have "category_id w = cid" by simp
  with contains_match_hit[OF d, of now] ex show ?thesis by (simp add: categorize_def)
qed


definition example_ratio :: "string \<Rightarrow> string \<Rightarrow> nat" where
  "example_ratio a b = (if a = b then 100 else 0)"

definition example_rules :: "rule list" where
  "example_rules =
     [\<lparr>rule_id = 1, pattern = ''COSTCO'', category_id = 2, match_type = ''exact'',
       created_date = 0, last_used = 0, use_count = 1\<rparr>,
      \<lparr>rule_id = 2, pattern = ''WHOLESALE'', category_id = 3, match_type = ''contains'',
       created_date = 0, last_used = 0, use_count = 1\<rparr>,
      \<lparr>rule_id = 3, pattern = ''COSTCO'', category_id = 4, match_type = ''contains'',
       created_date = 0, last_used = 0, use_count = 5\<rparr>,
      \<lparr>rule_id = 4, pattern = ''NETFLIX.COM'', category_id = 6, match_type = ''fuzzy'',
       created_date = 0, last_used = 0, use_count = 1\<rparr>]"

text \<open>The four tiers on a store with one exact, two contains and one fuzzy rule.\<close>

theorem categorize_tier_order_witness:
  "((\<exists>r\<in>set example_rules. is_exact_for (upper (strip '' costco '')) r)
      \<and> res_match_type (fst (categorize example_ratio 9 example_rules '' costco '')) = ''exact''
      \<and> confidence (fst (categorize example_ratio 9 example_rules '' costco '')) = 1)
   \<and> (list_all (\<lambda>r. \<not> is_exact_for (upper (strip ''costco wholesale #12'')) r) example_rules
      \<and> (\<exists>r\<in>set example_rules. is_contains_for (upper (strip ''costco wholesale #12'')) r)
      \<and> res_match_type (fst (categorize example_ratio 9 example_rules ''costco wholesale #12''))
          = ''contains''
      \<and> confidence (fst (categorize example_ratio 9 example_rules ''costco wholesale #12''))
          = 9 / 10)
   \<and> (list_all (\<lambda>r. \<not> is_exact_for (upper (strip ''netflix.com'')) r) example_rules
      \<and> list_all (\<lambda>r. \<not> is_contains_for (upper (strip ''netflix.com'')) r) example_rules
      \<and> (\<exists>r\<in>set example_rules. is_fuzzy r
            \<and> 80 \<le> fuzzy_score example_ratio (upper (strip ''netflix.com'')) r)
      \<and> res_match_type (fst (categorize example_ratio 9 example_rules ''netflix.com''))
          = ''fuzzy'')
   \<and> (list_all (\<lambda>r. \<not> is_exact_for (upper (strip ''uber'')) r) example_rules
      \<and> list_all (\<lambda>r. \<not> is_contains_for (upper (strip ''uber'')) r) example_rules
      \<and> list_all (\<lambda>r. is_fuzzy r
            \<longrightarrow> fuzzy_score example_ratio (upper (strip ''uber'')) r < 80) example_rules
      \<and> categorize example_ratio 9 example_rules ''uber''
          = (\<lparr>res_category_id = 0, confidence = 0, res_match_type = ''none''\<rparr>, example_rules))"
proof -
  have e: "\<exists>r\<in>set example_rules. is_exact_for (upper (strip '' costco '')) r"
    by code_simp
  have c: "(\<forall>r\<in>set example_rules. \<not> is_exact_for (upper (strip ''costco wholesale #12'')) r)
      \<and> (\<exists>r\<in>set example_rules. is_contains_for (upper (strip ''costco wholesale #12'')) r)"
    by code_simp
  have f: "(\<forall>r\<in>set example_rules. \<not> is_exact_for (upper (strip ''netflix.com'')) r)
      \<and> (\<forall>r\<in>set example_rules. \<not> is_contains_for (upper (strip ''netflix.com'')) r)
      \<and> (\<exists>r\<in>set example_rules. is_fuzzy r
            \<and> 80 \<le> fuzzy_score example_ratio (upper (strip ''netflix.com'')) r)"
    by code_simp
  have n: "(\<forall>r\<in>set example_rules. \<not> is_exact_for (upper (strip ''uber'')) r)
      \<and> (\<forall>r\<in>set example_rules. \<not> is_contains_for (upper (strip ''uber'')) r)
      \<and> (\<forall>r\<in>set example_rules. is_fuzzy r
            \<longrightarrow> fuzzy_score example_ratio (upper (strip ''uber'')) r < 80)"
    by code_simp
  from e categorize_tier_order[where rules=example_rules and description="'' costco ''"
      and ratio=example_ratio and now=9]
  have e': "res_match_type (fst (categorize example_ratio 9 example_rules '' costco '')) = ''exact''
      \<and> confidence (fst (categorize example_ratio 9 example_rules '' costco '')) = 1"
    by auto
  from c categorize_tier_order[where rules=example_rules
      and description="''costco wholesale #12''" and ratio=example_ratio and now=9]
  have c': "res_match_type (fst (categorize example_ratio 9 example_rules ''costco wholesale #12''))
          = ''contains''
      \<and> confidence (fst (categorize example_ratio 9 example_rules ''costco wholesale #12''))
          = 9 / 10"
    by auto
  from f categorize_tier_order[where rules=example_rules and description="''netflix.com''"
      and ratio=example_ratio and now=9]
  have f': "res_match_type (fst (categorize example_ratio 9 example_rules ''netflix.com''))
          = ''fuzzy''"
    by auto
  from n categorize_tier_order[where rules=example_rules and description="''uber''"
      and ratio=example_ratio and now=9]
  have n': "categorize example_ratio 9 example_rules ''uber''
          = (\<lparr>res_category_id = 0, confidence = 0, res_match_type = ''none''\<rparr>, example_rules)"
    by blast
  from e e' c c' f f' n n' show ?thesis unfolding list_all_iff by blast
qed

theorem categorize_twice_same_result_witness:
  "distinct (map rule_id example_rules)
   \<and> fst (categorize example_ratio 2
            (snd (categorize example_ratio 1 example_rules ''costco wholesale #12''))
            ''costco wholesale #12'')
       = fst (categorize example_ratio 1 example_rules ''costco wholesale #12'')"
proof -
  have d: "distinct (map rule_id example_rules)" by (simp add: example_rules_def)
  from categorize_twice_same_result[OF d] d show ?thesis by blast
qed


text \<open>
  Claim C2, amended. Learning category \<open>cid\<close> for a description and then classifying the
  same description returns a contains match with confidence 0.9 and category \<open>cid\<close>,
  provided that the store (distinct ids, at most one contains rule per pattern) has no
  exact rule for the normalised description, that the derived merchant pattern occurs
  in the normalised description, and that every contains rule whose upper-cased pattern
  occurs in the normalised description carries the derived pattern. In the concrete
  instance, learning category 1 for \<open>COSTCO WHOLESALE #123\<close> on the empty store derives
  the pattern \<open>COSTCO WHOLESALE\<close>, and \<open>COSTCO WHOLESALE #456 MONTREAL\<close> is then classified
  as category 1, contains, 0.9.
\<close>

theorem learn_then_categorize:
  fixes ratio :: "string \<Rightarrow> string \<Rightarrow> nat"
  shows
  "(distinct (map rule_id rules) \<and> contains_unique rules
      \<and> (\<forall>r\<in>set rules. \<not> is_exact_for (upper (strip description)) r)
      \<and> str_in (upper (extract_merchant_pattern (upper (strip description))))
           (upper (strip description))
      \<and> (\<forall>r\<in>set rules. is_contains_for (upper (strip description)) r
            \<longrightarrow> pattern r = extract_merchant_pattern (upper (strip description)))
    \<longrightarrow> fst (categorize ratio now2
               (snd (learn_from_categorization now1 rules description cid)) description)
          = \<lparr>res_category_id = cid, confidence = 9 / 10, res_match_type = ''contains''\<rparr>)
   \<and> extract_merchant_pattern (upper (strip ''COSTCO WHOLESALE #123'')) = ''COSTCO WHOLESALE''
   \<and> fst (categorize ratio now2
            (snd (learn_from_categorization now1 [] ''COSTCO WHOLESALE #123'' 1))
            ''COSTCO WHOLESALE #456 MONTREAL'')
       = \<lparr>res_category_id = 1, confidence = 9 / 10, res_match_type = ''contains''\<rparr>"
proof -
  let ?d = "upper (strip description)"
  let ?p = "extract_merchant_pattern ?d"
  have general: "fst (categorize ratio now2
               (snd (learn_from_categorization now1 rules description cid)) description)
          = \<lparr>res_category_id = cid, confidence = 9 / 10, res_match_type = ''contains''\<rparr>"
    if ids: "distinct (map rule_id rules)" and uniq: "contains_unique rules"
      and noexact: "\<forall>r\<in>set rules. \<not> is_exact_for ?d r"
      and sub: "str_in (upper ?p) ?d"
      and only: "\<forall>r\<in>set rules. is_contains_for ?d r \<longrightarrow> pattern r = ?p"
  proof -
    let ?rules' = "snd (learn_from_categorization now1 rules description cid)"
    have "(\<forall>r\<in>set ?rules'. \<not> is_exact_for ?d r)
        \<and> (\<exists>r\<in>set ?rules'. is_contains_for ?d r)
        \<and> (\<forall>r\<in>set ?rules'. is_contains_for ?d r \<longrightarrow> category_id r = cid)"
    proof (rule learn_cases[OF ids refl, where description=description and now=now1 and cid=cid],
        goal_cases)
      case new: 1
      let ?nr = "\<lparr>rule_id = fresh_id rules, pattern = ?p, category_id = cid,
                  match_type = ''contains'', created_date = now1, last_used = now1,
                  use_count = 1\<rparr>"
      from new(2) have r': "?rules' = rules @ [?nr]" by simp
      have a: "\<not> is_exact_for ?d ?nr" by (simp add: is_exact_for_def)
      have b: "is_contains_for ?d ?nr" using sub by (simp add: is_contains_for_def)
      have c: "\<forall>r\<in>set rules. \<not> is_contains_for ?d r"
      proof
        fix r assume r: "r \<in> set rules"
        show "\<not> is_contains_for ?d r"
        proof
          assume m: "is_contains_for ?d r"
          with only r have "pattern r = ?p" by blast
          moreover from m have "match_type r = ''contains''" by (simp add: is_contains_for_def)
          ultimately show False using new(1) r by blast
        qed
      qed
      from a b c noexact show ?thesis unfolding r' by auto
    next
      case changed: (2 e)
      let ?g = "relabelled now1 cid (rule_id e)"
      from changed(5) have r': "?rules' = map ?g rules" by simp
      have a: "\<forall>r\<in>set (map ?g rules). \<not> is_exact_for ?d r"
        using noexact by (simp add: relabelled_simps)
      have "is_contains_for ?d e" using changed(2,3) sub by (simp add: is_contains_for_def)
      with changed(1) have b: "\<exists>r\<in>set (map ?g rules). is_contains_for ?d r"
        by (auto simp: relabelled_simps)
      have c: "\<forall>r\<in>set (map ?g rules). is_contains_for ?d r \<longrightarrow> category_id r = cid"
      proof
        fix r' assume "r' \<in> set (map ?g rules)"
        then obtain r where r: "r \<in> set rules" "r' = ?g r" by auto
        show "is_contains_for ?d r' \<longrightarrow> category_id r' = cid"
        proof
          assume "is_contains_for ?d r'"
          with r have m: "is_contains_for ?d r" by (simp add: relabelled_simps)
          with only r have "pattern r = pattern e" using changed(2) by simp
          moreover from m have "match_type r = ''contains''" by (simp add: is_contains_for_def)
          ultimately have "r = e"
            using contains_unique_same[OF uniq r(1) changed(1) _ changed(3)] by simp
          with r show "category_id r' = cid" by (simp add: relabelled_simps)
        qed
      qed
      from a b c show ?thesis unfolding r' by blast
    next
      case same: (3 e)
      from same(5) have r': "?rules' = rules" by simp
      have m: "is_contains_for ?d e" using same(2,3) sub by (simp add: is_contains_for_def)
      have c: "\<forall>r\<in>set rules. is_contains_for ?d r \<longrightarrow> category_id r = cid"
      proof
        fix r assume r: "r \<in> set rules"
        show "is_contains_for ?d r \<longrightarrow> category_id r = cid"
        proof
          assume m: "is_contains_for ?d r"
          with only r have "pattern r = pattern e" using same(2) by simp
          moreover from m have "match_type r = ''contains''" by (simp add: is_contains_for_def)
          ultimately have "r = e"
            using contains_unique_same[OF uniq r same(1) _ same(3)] by simp
          with same(4) show "category_id r = cid" by simp
        qed
      qed
      from noexact m same(1) c show ?thesis unfolding r' by blast
    qed
    then show ?thesis by (intro categorize_contains_category) auto
  qed
  have pat: "extract_merchant_pattern (upper (strip ''COSTCO WHOLESALE #123'')) = ''COSTCO WHOLESALE''"
    by code_simp
  have inst: "fst (categorize ratio now2
            (snd (learn_from_categorization now1 [] ''COSTCO WHOLESALE #123'' 1))
            ''COSTCO WHOLESALE #456 MONTREAL'')
       = \<lparr>res_category_id = 1, confidence = 9 / 10, res_match_type = ''contains''\<rparr>"
    by code_simp
  from general pat inst show ?thesis by blast
qed


theorem learn_then_categorize_witness:
  "(distinct (map rule_id [costco_rule]) \<and> contains_unique [costco_rule]
      \<and> list_all (\<lambda>r. \<not> is_exact_for (upper (strip ''costco wholesale #123'')) r) [costco_rule]
      \<and> str_in (upper (extract_merchant_pattern (upper (strip ''costco wholesale #123''))))
           (upper (strip ''costco wholesale #123''))
      \<and> list_all (\<lambda>r. is_contains_for (upper (strip ''costco wholesale #123'')) r
            \<longrightarrow> pattern r = extract_merchant_pattern (upper (strip ''costco wholesale #123''))) [costco_rule])
   \<and> fst (categorize example_ratio 6
            (snd (learn_from_categorization 5 [costco_rule] ''costco wholesale #123'' 2))
            ''costco wholesale #123'')
       = \<lparr>res_category_id = 2, confidence = 9 / 10, res_match_type = ''contains''\<rparr>"
proof -
  have h: "distinct (map rule_id [costco_rule]) \<and> contains_unique [costco_rule]
      \<and> (\<forall>r\<in>set [costco_rule]. \<not> is_exact_for (upper (strip ''costco wholesale #123'')) r)
      \<and> str_in (upper (extract_merchant_pattern (upper (strip ''costco wholesale #123''))))
           (upper (strip ''costco wholesale #123''))
      \<and> (\<forall>r\<in>set [costco_rule]. is_contains_for (upper (strip ''costco wholesale #123'')) r
            \<longrightarrow> pattern r = extract_merchant_pattern (upper (strip ''costco wholesale #123'')))"
    by code_simp
  from learn_then_categorize[where rules="[costco_rule]"
      and description="''costco wholesale #123''" and cid=2 and ratio=example_ratio
      and ?now1.0=5 and ?now2.0=6] h
  show ?thesis unfolding list_all_iff by blast
qed

text \<open>
  Without the provisos the round trip fails already on the empty store: the pattern
  derived from \<open>COSTCO #123 WHOLESALE\<close> is \<open>COSTCO WHOLESALE\<close>, which does not occur in that
  description, so the description is left uncategorised right after it was learned.
\<close>

theorem learn_then_categorize_counterexample:
  "extract_merchant_pattern (upper (strip ''COSTCO #123 WHOLESALE'')) = ''COSTCO WHOLESALE''
   \<and> fst (categorize example_ratio 2
            (snd (learn_from_categorization 1 [] ''COSTCO #123 WHOLESALE'' 1))
            ''COSTCO #123 WHOLESALE'')
       = \<lparr>res_category_id = 0, confidence = 0, res_match_type = ''none''\<rparr>"
  by code_simp

definition pattern_and_type :: "rule \<Rightarrow> string \<times> string" where
  "pattern_and_type r = (pattern r, match_type r)"

definition has_empty_contains_rule :: "rule list \<Rightarrow> bool" where
  "has_empty_contains_rule rules \<longleftrightarrow>
     (\<exists>r\<in>set rules. match_type r = ''contains'' \<and> pattern r = [])"

lemma has_empty_contains_rule_iff:
  "has_empty_contains_rule rules \<longleftrightarrow> ([], ''contains'') \<in> set (map pattern_and_type rules)"
  by (force simp: has_empty_contains_rule_def pattern_and_type_def image_iff)

lemma usage_pattern_and_type:
  "map pattern_and_type (update_rule_usage now i rules) = map pattern_and_type rules"
  by (simp add: update_rule_usage_def pattern_and_type_def map_update_one)

lemma categorize_pattern_and_type:
  "map pattern_and_type (snd (categorize ratio now rules description)) = map pattern_and_type rules"
  by (simp add: categorize_def exact_match_def contains_match_def fuzzy_match_def Let_def
        usage_pattern_and_type split: option.splits prod.splits)

lemma learn_pattern_and_type:
  "set (map pattern_and_type rules)
     \<subseteq> set (map pattern_and_type (snd (learn_from_categorization now rules description cid)))"
proof (cases "find (\<lambda>r. pattern r = extract_merchant_pattern (upper (strip description))
                        \<and> match_type r = ''contains'') rules")
  case None
  then show ?thesis by (auto simp: learn_from_categorization_def Let_def)
next
  case (Some e)
  have "map pattern_and_type (update_one (\<lambda>r. rule_id r = rule_id e)
          (\<lambda>r. r\<lparr>category_id := cid, last_used := now, use_count := use_count r + 1\<rparr>) rules)
        = map pattern_and_type rules"
    by (simp add: pattern_and_type_def map_update_one)
  with Some have "map pattern_and_type (snd (learn_from_categorization now rules description cid))
      = map pattern_and_type rules"
    by (simp add: learn_from_categorization_def Let_def)
  then show ?thesis by simp
qed

lemma learn_empty_pattern:
  assumes "extract_merchant_pattern (upper (strip description)) = []"
  shows "has_empty_contains_rule (snd (learn_from_categorization now rules description cid))"
proof (cases "find (\<lambda>r. pattern r = [] \<and> match_type r = ''contains'') rules")
  case None
  with assms show ?thesis
    by (simp add: learn_from_categorization_def Let_def has_empty_contains_rule_def)
next
  case (Some e)
  then have "e \<in> set rules" "pattern e = []" "match_type e = ''contains''"
    unfolding find_first by auto
  then have "has_empty_contains_rule rules" by (auto simp: has_empty_contains_rule_def)
  with learn_pattern_and_type[of rules now description cid] show ?thesis
    unfolding has_empty_contains_rule_iff by blast
qed

lemma empty_rule_matches:
  "has_empty_contains_rule rules \<Longrightarrow> \<exists>r\<in>set rules. is_contains_for d r"
  by (auto simp: has_empty_contains_rule_def is_contains_for_def upper_def str_in_Nil)

text \<open>
  Claim C10, amended. A description made only of strippable tokens (\<open>#123\<close>, a lone date)
  has the empty merchant pattern, and learning it leaves a contains rule with the empty
  pattern in the store. Such a rule stays in the store under learning and classifying,
  and while it is there no description is classified as \<open>none\<close>: a classification that
  reaches the contains tier is a contains hit with confidence 0.9, whose category is that
  of a matching contains rule of highest use count (the empty-pattern rule's own
  category only when no other matching contains rule is ordered before it).
\<close>

theorem empty_pattern_rule_always_hit:
  fixes ratio :: "string \<Rightarrow> string \<Rightarrow> nat"
  shows
  "extract_merchant_pattern (upper (strip ''#123'')) = []
   \<and> extract_merchant_pattern (upper (strip ''12/19/2024'')) = []
   \<and> (extract_merchant_pattern (upper (strip description)) = [] \<longrightarrow>
        has_empty_contains_rule (snd (learn_from_categorization now rules description cid)))
   \<and> (has_empty_contains_rule rules \<longrightarrow>
        has_empty_contains_rule (snd (learn_from_categorization now rules d c))
        \<and> has_empty_contains_rule (snd (categorize ratio now rules d))
        \<and> res_match_type (fst (categorize ratio now rules d)) \<noteq> ''none''
        \<and> ((\<forall>r\<in>set rules. \<not> is_exact_for (upper (strip d)) r) \<longrightarrow>
              res_match_type (fst (categorize ratio now rules d)) = ''contains''
              \<and> confidence (fst (categorize ratio now rules d)) = 9 / 10
              \<and> (\<exists>w\<in>set rules. is_contains_for (upper (strip d)) w
                    \<and> (\<forall>r\<in>set rules. is_contains_for (upper (strip d)) r
                          \<longrightarrow> use_count r \<le> use_count w)
                    \<and> res_category_id (fst (categorize ratio now rules d)) = category_id w)))"
proof -
  have p1: "extract_merchant_pattern (upper (strip ''#123'')) = []" by code_simp
  have p2: "extract_merchant_pattern (upper (strip ''12/19/2024'')) = []" by code_simp
  have inv: "has_empty_contains_rule (snd (learn_from_categorization now rules d c))
        \<and> has_empty_contains_rule (snd (categorize ratio now rules d))"
    if "has_empty_contains_rule rules"
    using that learn_pattern_and_type[of rules now d c]
    unfolding has_empty_contains_rule_iff categorize_pattern_and_type by blast
  have hit: "res_match_type (fst (categorize ratio now rules d)) = ''contains''
        \<and> confidence (fst (categorize ratio now rules d)) = 9 / 10
        \<and> (\<exists>w\<in>set rules. is_contains_for (upper (strip d)) w
              \<and> (\<forall>r\<in>set rules. is_contains_for (upper (strip d)) r
                    \<longrightarrow> use_count r \<le> use_count w)
              \<and> res_category_id (fst (categorize ratio now rules d)) = category_id w)"
    if e: "has_empty_contains_rule rules"
      and nx: "\<forall>r\<in>set rules. \<not> is_exact_for (upper (strip d)) r"
  proof -
    let ?d = "upper (strip d)"
    from nx have ex: "exact_match now rules ?d = None" by (simp add: exact_match_miss)
    from contains_winner_exists[OF empty_rule_matches[OF e]] obtain as w bs where
      dec: "rules = as @ w # bs" "is_contains_for ?d w"
      "\<forall>a\<in>set as. is_contains_for ?d a \<longrightarrow> use_count a < use_count w"
      "\<forall>b\<in>set bs. is_contains_for ?d b \<longrightarrow> use_count b \<le> use_count w" by blast
    from contains_match_hit[OF dec, of now] ex
    have res: "fst (categorize ratio now rules d)
        = \<lparr>res_category_id = category_id w, confidence = 9 / 10, res_match_type = ''contains''\<rparr>"
      by (simp add: categorize_def)
    from dec have "w \<in> set rules" and "\<forall>r\<in>set rules. is_contains_for ?d r
        \<longrightarrow> use_count r \<le> use_count w"
      by auto
    with dec(2) res show ?thesis by auto
  qed
  have notnone: "res_match_type (fst (categorize ratio now rules d)) \<noteq> ''none''"
    if e: "has_empty_contains_rule rules"
  proof (cases "\<exists>r\<in>set rules. is_exact_for (upper (strip d)) r")
    case True
    from first_exists[OF this] obtain as r bs where dec: "rules = as @ r # bs"
      "is_exact_for (upper (strip d)) r" "\<forall>a\<in>set as. \<not> is_exact_for (upper (strip d)) a" by blast
    from exact_match_hit[OF dec, of now] show ?thesis by (simp add: categorize_def)
  next
    case False
    with hit[OF e] show ?thesis by simp
  qed
  from p1 p2 learn_empty_pattern inv hit notnone show ?thesis by blast
qed

theorem empty_pattern_rule_always_hit_witness:
  "extract_merchant_pattern (upper (strip ''#123'')) = []
   \<and> has_empty_contains_rule (snd (learn_from_categorization 1 [] ''#123'' 7))
   \<and> list_all (\<lambda>r. \<not> is_exact_for (upper (strip ''uber'')) r) (snd (learn_from_categorization 1 [] ''#123'' 7))
   \<and> res_match_type (fst (categorize example_ratio 2
         (snd (learn_from_categorization 1 [] ''#123'' 7)) ''uber'')) = ''contains''
   \<and> confidence (fst (categorize example_ratio 2
         (snd (learn_from_categorization 1 [] ''#123'' 7)) ''uber'')) = 9 / 10"
proof -
  have p: "extract_merchant_pattern (upper (strip ''#123'')) = []" by code_simp
  have nx: "\<forall>r\<in>set (snd (learn_from_categorization 1 [] ''#123'' 7)).
         \<not> is_exact_for (upper (strip ''uber'')) r" by code_simp
  from p empty_pattern_rule_always_hit[where description="''#123''" and now=1 and rules="[]"
      and cid=7]
  have e: "has_empty_contains_rule (snd (learn_from_categorization 1 [] ''#123'' 7))" by blast
  from e nx empty_pattern_rule_always_hit[where
      rules="snd (learn_from_categorization 1 [] ''#123'' 7)" and d="''uber''"
      and ratio=example_ratio and now=2]
  have "res_match_type (fst (categorize example_ratio 2
         (snd (learn_from_categorization 1 [] ''#123'' 7)) ''uber'')) = ''contains''
   \<and> confidence (fst (categorize example_ratio 2
         (snd (learn_from_categorization 1 [] ''#123'' 7)) ''uber'')) = 9 / 10"
    by blast
  with p e nx show ?thesis unfolding list_all_iff by blast
qed

text \<open>
  The category returned need not be that of the empty-pattern rule: after learning
  \<open>COSTCO \<mapsto> 2\<close> and then \<open>#123 \<mapsto> 7\<close>, the description \<open>COSTCO\<close> reaches the contains tier
  and is given category 2.
\<close>

theorem empty_pattern_rule_counterexample:
  "map pattern (snd (learn_from_categorization 2
        (snd (learn_from_categorization 1 [] ''COSTCO'' 2)) ''#123'' 7)) = [''COSTCO'', []]
   \<and> map category_id (snd (learn_from_categorization 2
        (snd (learn_from_categorization 1 [] ''COSTCO'' 2)) ''#123'' 7)) = [2, 7]
   \<and> fst (categorize example_ratio 3
        (snd (learn_from_categorization 2
           (snd (learn_from_categorization 1 [] ''COSTCO'' 2)) ''#123'' 7)) ''COSTCO'')
      = \<lparr>res_category_id = 2, confidence = 9 / 10, res_match_type = ''contains''\<rparr>"
  by code_simp

section \<open>Properties of propagation\<close>

definition similar_uncategorized :: "string \<Rightarrow> txn \<Rightarrow> bool" where
  "similar_uncategorized description t \<longleftrightarrow>
     txn_category_id t = 0
     \<and> regex_escaped_i (extract_merchant_pattern (upper (strip description))) (txn_description t)"

definition propagated :: "int \<Rightarrow> txn \<Rightarrow> txn" where
  "propagated cid t = t\<lparr>txn_category_id := cid, txn_auto_categorized := True,
                        txn_confidence := 9 / 10\<rparr>"

lemma key_in_filtered:
  assumes "distinct (map k xs)" "x \<in> set xs"
  shows "k x \<in> set (map k (filter P xs)) \<longleftrightarrow> P x"
proof
  assume "k x \<in> set (map k (filter P xs))"
  then obtain y where y: "y \<in> set xs" "P y" "k y = k x" by auto
  from assms(1) have "inj_on k (set xs)" by (simp add: distinct_map)
  with y assms(2) have "y = x" by (auto dest: inj_onD)
  with y show "P x" by simp
next
  assume "P x"
  with assms(2) show "k x \<in> set (map k (filter P xs))" by auto
qed

lemma batch_categorize_similar_map:
  assumes ids: "distinct (map txn_id txns)"
  shows "batch_categorize_similar txns description cid =
     (length (filter (\<lambda>t. similar_uncategorized description t \<and> propagated cid t \<noteq> t) txns),
      map (\<lambda>t. if similar_uncategorized description t then propagated cid t else t) txns)"
proof -
  let ?hit = "similar_uncategorized description"
  let ?ids = "map txn_id (filter ?hit txns)"
  have mem: "\<And>t. t \<in> set txns \<Longrightarrow> txn_id t \<in> set ?ids \<longleftrightarrow> ?hit t"
    using key_in_filtered[OF ids] by blast
  have unfold: "batch_categorize_similar txns description cid =
      (if ?ids = [] then (0, txns)
       else update_many (\<lambda>t. txn_id t \<in> set ?ids) (propagated cid) txns)"
  proof -
    have "?hit = (\<lambda>t. txn_category_id t = 0
        \<and> regex_escaped_i (extract_merchant_pattern (upper (strip description)))
              (txn_description t))"
      by (simp add: fun_eq_iff similar_uncategorized_def)
    moreover have "propagated cid = (\<lambda>t. t\<lparr>txn_category_id := cid,
        txn_auto_categorized := True, txn_confidence := 9 / 10\<rparr>)"
      by (simp add: fun_eq_iff propagated_def)
    ultimately show ?thesis by (simp add: batch_categorize_similar_def Let_def)
  qed
  show ?thesis
  proof (cases "?ids = []")
    case True
    then have none: "\<forall>t\<in>set txns. \<not> ?hit t" by (simp add: filter_empty_conv)
    then have "filter (\<lambda>t. ?hit t \<and> propagated cid t \<noteq> t) txns = []"
      and "map (\<lambda>t. if ?hit t then propagated cid t else t) txns = txns"
      by (simp_all add: filter_empty_conv map_idI)
    with True unfold show ?thesis by simp
  next
    case False
    have "filter (\<lambda>t. txn_id t \<in> set ?ids \<and> propagated cid t \<noteq> t) txns
        = filter (\<lambda>t. ?hit t \<and> propagated cid t \<noteq> t) txns"
      using mem by (intro filter_cong) auto
    moreover have "map (\<lambda>t. if txn_id t \<in> set ?ids then propagated cid t else t) txns
        = map (\<lambda>t. if ?hit t then propagated cid t else t) txns"
      using mem by (intro map_cong) auto
    ultimately show ?thesis using False unfold by (simp add: update_many_def)
  qed
qed

text \<open>
  Claim C4. On a transaction store whose documents have distinct \<open>_id\<close>s,
  \<open>batch_categorize_similar\<close> touches exactly the transactions that were uncategorised
  (\<open>category_id = 0\<close>) and whose description contains the derived merchant pattern
  without regard to case: each of them keeps every field except \<open>category_id\<close> (set to
  the given category), \<open>auto_categorized\<close> (set to true) and \<open>confidence\<close> (set to 0.9);
  every other transaction, in particular every categorised one, is unchanged. The count
  returned is the number of records that differ afterwards, and when nothing matches
  the count is 0 and the store is as before.
\<close>

theorem batch_categorize_similar_frame:
  assumes ids: "distinct (map txn_id txns)"
  shows "length (snd (batch_categorize_similar txns description cid)) = length txns
    \<and> (\<forall>i<length txns.
          snd (batch_categorize_similar txns description cid) ! i
            = (if txn_category_id (txns ! i) = 0
                  \<and> regex_escaped_i (extract_merchant_pattern (upper (strip description)))
                        (txn_description (txns ! i))
               then (txns ! i)\<lparr>txn_category_id := cid, txn_auto_categorized := True,
                                txn_confidence := 9 / 10\<rparr>
               else txns ! i))
    \<and> fst (batch_categorize_similar txns description cid)
        = length (filter (\<lambda>(old, new). new \<noteq> old)
            (zip txns (snd (batch_categorize_similar txns description cid))))
    \<and> ((\<forall>t\<in>set txns. \<not> (txn_category_id t = 0
            \<and> regex_escaped_i (extract_merchant_pattern (upper (strip description)))
                  (txn_description t)))
        \<longrightarrow> batch_categorize_similar txns description cid = (0, txns))"
proof -
  let ?hit = "similar_uncategorized description"
  let ?g = "\<lambda>t. if ?hit t then propagated cid t else t"
  note m = batch_categorize_similar_map[OF ids, of description cid]
  have len: "length (snd (batch_categorize_similar txns description cid)) = length txns"
    by (simp add: m)
  have nth: "\<forall>i<length txns.
          snd (batch_categorize_similar txns description cid) ! i
            = (if txn_category_id (txns ! i) = 0
                  \<and> regex_escaped_i (extract_merchant_pattern (upper (strip description)))
                        (txn_description (txns ! i))
               then (txns ! i)\<lparr>txn_category_id := cid, txn_auto_categorized := True,
                                txn_confidence := 9 / 10\<rparr>
               else txns ! i)"
    by (simp add: m similar_uncategorized_def propagated_def)
  have "zip txns (map ?g txns) = map (\<lambda>t. (t, ?g t)) txns"
    by (induction txns) auto
  then have "filter (\<lambda>(old, new). new \<noteq> old) (zip txns (map ?g txns))
      = map (\<lambda>t. (t, ?g t)) (filter (\<lambda>t. ?g t \<noteq> t) txns)"
    by (simp add: filter_map comp_def)
  moreover have "filter (\<lambda>t. ?g t \<noteq> t) txns = filter (\<lambda>t. ?hit t \<and> propagated cid t \<noteq> t) txns"
    by (intro filter_cong) auto
  ultimately have cnt: "fst (batch_categorize_similar txns description cid)
        = length (filter (\<lambda>(old, new). new \<noteq> old)
            (zip txns (snd (batch_categorize_similar txns description cid))))"
    by (simp add: m)
  have none: "batch_categorize_similar txns description cid = (0, txns)"
    if "\<forall>t\<in>set txns. \<not> (txn_category_id t = 0
            \<and> regex_escaped_i (extract_merchant_pattern (upper (strip description)))
                  (txn_description t))"
  proof -
    from that have "\<forall>t\<in>set txns. \<not> ?hit t" by (simp add: similar_uncategorized_def)
    then have "filter (\<lambda>t. ?hit t \<and> propagated cid t \<noteq> t) txns = []"
      and "map ?g txns = txns"
      by (simp_all add: filter_empty_conv map_idI)
    then show ?thesis by (simp add: m)
  qed
  from len nth cnt none show ?thesis by blast
qed

text \<open>
  Claim C5, amended. Calling \<open>batch_categorize_similar\<close> twice in a row with the same
  arguments returns 0 from the second call, for every category; when the category is not
  0 the reason is that the first call leaves no uncategorised transaction that matches
  the derived pattern.
\<close>

theorem batch_categorize_similar_twice:
  assumes ids: "distinct (map txn_id txns)"
  shows "fst (batch_categorize_similar (snd (batch_categorize_similar txns description cid))
               description cid) = 0
    \<and> (cid \<noteq> 0 \<longrightarrow>
         (\<forall>t\<in>set (snd (batch_categorize_similar txns description cid)).
            \<not> (txn_category_id t = 0
               \<and> regex_escaped_i (extract_merchant_pattern (upper (strip description)))
                     (txn_description t))))"
proof -
  let ?hit = "similar_uncategorized description"
  let ?g = "\<lambda>t. if ?hit t then propagated cid t else t"
  note m = batch_categorize_similar_map[OF ids, of description cid]
  have ids': "distinct (map txn_id (map ?g txns))"
  proof -
    have "txn_id \<circ> ?g = txn_id"
      by (auto simp: fun_eq_iff propagated_def)
    with ids show ?thesis by (simp only: map_map)
  qed
  have noop: "\<not> (?hit (?g t) \<and> propagated cid (?g t) \<noteq> ?g t)" for t
    by (auto simp: similar_uncategorized_def propagated_def)
  have "filter (\<lambda>t. ?hit t \<and> propagated cid t \<noteq> t) (map ?g txns) = []"
    unfolding filter_empty_conv
  proof
    fix x assume "x \<in> set (map ?g txns)"
    then obtain t where x: "x = ?g t" unfolding set_map by blast
    show "\<not> (?hit x \<and> propagated cid x \<noteq> x)" unfolding x by (rule noop)
  qed
  then have second: "fst (batch_categorize_similar (map ?g txns) description cid) = 0"
    by (simp add: batch_categorize_similar_map[OF ids'])
  have left: "\<forall>t\<in>set (map ?g txns). \<not> ?hit t" if "cid \<noteq> 0"
    using that by (auto simp: similar_uncategorized_def propagated_def)
  have snd: "snd (batch_categorize_similar txns description cid) = map ?g txns"
    by (simp add: m)
  have hit: "?hit t \<longleftrightarrow> txn_category_id t = 0
        \<and> regex_escaped_i (extract_merchant_pattern (upper (strip description)))
              (txn_description t)" for t
    by (simp add: similar_uncategorized_def)
  from second left show ?thesis unfolding snd hit[symmetric] by blast
qed

definition example_txns :: "txn list" where
  "example_txns =
     [\<lparr>txn_id = 1, txn_date = 5, txn_description = ''Costco Wholesale #456 Montreal'',
       txn_amount = - 120, txn_category_id = 0, txn_source_file = None, txn_upload_date = 0,
       txn_notes = [], txn_auto_categorized = False, txn_confidence = 0\<rparr>,
      \<lparr>txn_id = 2, txn_date = 7, txn_description = ''COSTCO WHOLESALE #9'',
       txn_amount = - 80, txn_category_id = 3, txn_source_file = None, txn_upload_date = 0,
       txn_notes = [], txn_auto_categorized = False, txn_confidence = 0\<rparr>,
      \<lparr>txn_id = 3, txn_date = 9, txn_description = ''Uber trip'',
       txn_amount = - 15, txn_category_id = 0, txn_source_file = None, txn_upload_date = 0,
       txn_notes = [], txn_auto_categorized = False, txn_confidence = 0\<rparr>]"

theorem batch_categorize_similar_frame_witness:
  "distinct (map txn_id example_txns)
   \<and> length (snd (batch_categorize_similar example_txns ''COSTCO WHOLESALE #123'' 1))
       = length example_txns
   \<and> fst (batch_categorize_similar example_txns ''COSTCO WHOLESALE #123'' 1)
       = length (filter (\<lambda>(old, new). new \<noteq> old)
           (zip example_txns
              (snd (batch_categorize_similar example_txns ''COSTCO WHOLESALE #123'' 1))))
   \<and> batch_categorize_similar example_txns ''COSTCO WHOLESALE #123'' 1
       = (1, [(example_txns ! 0)\<lparr>txn_category_id := 1, txn_auto_categorized := True,
                                  txn_confidence := 9 / 10\<rparr>,
              example_txns ! 1, example_txns ! 2])"
proof -
  have d: "distinct (map txn_id example_txns)" by (simp add: example_txns_def)
  have v: "batch_categorize_similar example_txns ''COSTCO WHOLESALE #123'' 1
       = (1, [(example_txns ! 0)\<lparr>txn_category_id := 1, txn_auto_categorized := True,
                                  txn_confidence := 9 / 10\<rparr>,
              example_txns ! 1, example_txns ! 2])"
    by code_simp
  from batch_categorize_similar_frame[OF d, of "''COSTCO WHOLESALE #123''" 1] d v
  show ?thesis by blast
qed

theorem batch_categorize_similar_twice_witness:
  "distinct (map txn_id example_txns) \<and> (1::int) \<noteq> 0
   \<and> fst (batch_categorize_similar
            (snd (batch_categorize_similar example_txns ''COSTCO WHOLESALE #123'' 1))
            ''COSTCO WHOLESALE #123'' 1) = 0
   \<and> list_all (\<lambda>t. \<not> (txn_category_id t = 0
          \<and> regex_escaped_i (extract_merchant_pattern (upper (strip ''COSTCO WHOLESALE #123'')))
                (txn_description t)))
        (snd (batch_categorize_similar example_txns ''COSTCO WHOLESALE #123'' 1))"
proof -
  have d: "distinct (map txn_id example_txns)" by (simp add: example_txns_def)
  from batch_categorize_similar_twice[OF d, of "''COSTCO WHOLESALE #123''" 1] d
  show ?thesis unfolding list_all_iff by simp
qed

text \<open>
  With category 0 the matched transaction is still uncategorised and still matches after
  the first call (which modified it); the second call finds it again and changes
  nothing.
\<close>

theorem batch_categorize_similar_twice_counterexample:
  "snd (batch_categorize_similar [example_txns ! 0] ''COSTCO WHOLESALE #123'' 0)
     = [(example_txns ! 0)\<lparr>txn_auto_categorized := True, txn_confidence := 9 / 10\<rparr>]
   \<and> txn_category_id ((example_txns ! 0)\<lparr>txn_auto_categorized := True,
                                          txn_confidence := 9 / 10\<rparr>) = 0
   \<and> regex_escaped_i (extract_merchant_pattern (upper (strip ''COSTCO WHOLESALE #123'')))
        (txn_description ((example_txns ! 0)\<lparr>txn_auto_categorized := True,
                                               txn_confidence := 9 / 10\<rparr>))
   \<and> fst (batch_categorize_similar [example_txns ! 0] ''COSTCO WHOLESALE #123'' 0) = 1
   \<and> fst (batch_categorize_similar
            (snd (batch_categorize_similar [example_txns ! 0] ''COSTCO WHOLESALE #123'' 0))
            ''COSTCO WHOLESALE #123'' 0) = 0"
  by code_simp

section \<open>Properties of the amount normaliser\<close>



fun float_is_zero :: "pyfloat \<Rightarrow> bool" where
  "float_is_zero (Finite r) \<longleftrightarrow> r = 0"
| "float_is_zero NegZero \<longleftrightarrow> True"
| "float_is_zero PosInf \<longleftrightarrow> False"
| "float_is_zero NegInf \<longleftrightarrow> False"
| "float_is_zero (NaN s) \<longleftrightarrow> False"

text \<open>The steps of \<open>parse_amount\<close> on the trimmed text \<open>t\<close> of a cell, one by one.\<close>

definition is_null_text :: "string \<Rightarrow> bool" where
  "is_null_text t \<longleftrightarrow> t = [] \<or> lower t \<in> set [[], ''null'', ''none'', ''n/a'']"

definition parenthesised :: "string \<Rightarrow> bool" where
  "parenthesised t \<longleftrightarrow> startswith t ''('' \<and> endswith t '')''"

definition unsymbolled :: "string \<Rightarrow> string" where
  "unsymbolled t =
     remove_char CHR '' '' (remove_char CHR '','' (remove_char CHR ''$''
       (if parenthesised t then butlast (tl t) else t)))"

definition amount_negative :: "string \<Rightarrow> bool" where
  "amount_negative t \<longleftrightarrow> parenthesised t \<or> startswith (unsymbolled t) ''-''"

definition amount_text :: "string \<Rightarrow> string" where
  "amount_text t = (if startswith (unsymbolled t) ''-'' then tl (unsymbolled t) else unsymbolled t)"

lemma parse_amount_Str:
  "parse_amount to_float (Str s) =
     (if is_null_text (strip s) then Inr (Finite 0)
      else case to_float (amount_text (strip s)) of
             Some a \<Rightarrow> Inr (if amount_negative (strip s) then float_neg (float_abs a) else a)
           | None \<Rightarrow> Inl (ValueError (''Could not parse amount: '' @ s)))"
proof (cases "is_null_text (strip s)")
  case True
  then show ?thesis by (simp add: parse_amount_def is_null_text_def)
next
  case False
  then have nn: "(strip s = [] \<or> lower (strip s) \<in> set [[], ''null'', ''none'', ''n/a'']) = False"
    by (simp add: is_null_text_def)
  show ?thesis
  proof (cases "parenthesised (strip s)")
    case p: True
    then have p': "(startswith (strip s) ''('' \<and> endswith (strip s) '')'') = True"
      by (simp add: parenthesised_def)
    have u: "remove_char CHR '' '' (remove_char CHR '',''
        (remove_char CHR ''$'' (butlast (tl (strip s))))) = unsymbolled (strip s)"
      using p by (simp add: unsymbolled_def)
    show ?thesis
      unfolding parse_amount_def Let_def pyval.case py_str.simps nn p' if_True if_False
        prod.case u
      using False p
      by (cases "startswith (unsymbolled (strip s)) ''-''")
         (simp_all add: amount_negative_def amount_text_def split: option.splits)
  next
    case p: False
    then have p': "(startswith (strip s) ''('' \<and> endswith (strip s) '')'') = False"
      by (simp add: parenthesised_def)
    have u: "remove_char CHR '' '' (remove_char CHR '',''
        (remove_char CHR ''$'' (strip s))) = unsymbolled (strip s)"
      using p by (simp add: unsymbolled_def)
    show ?thesis
      unfolding parse_amount_def Let_def pyval.case py_str.simps nn p' if_True if_False
        prod.case u
      using False p
      by (cases "startswith (unsymbolled (strip s)) ''-''")
         (simp_all add: amount_negative_def amount_text_def split: option.splits)
  qed
qed


lemma neg_abs_zero: "float_is_zero (float_neg (float_abs a)) \<longleftrightarrow> float_is_zero a"
  by (cases a) auto






section \<open>Properties of parsed rows\<close>

definition cell_text :: "string option \<Rightarrow> string" where
  "cell_text cell = py_str (cell_value cell)"

text \<open>The cell whose text \<open>parse_row\<close> hands to \<open>parse_amount\<close>, when it gets that far.\<close>

definition amount_source :: "(string \<Rightarrow> string option option) \<Rightarrow> column_mapping \<Rightarrow> string option option" where
  "amount_source row cm =
     (case map_amount_columns cm of
        Some (col # cols) \<Rightarrow>
          (case first_amount row (col # cols) of Inr s \<Rightarrow> Some (Some s) | Inl e \<Rightarrow> None)
      | _ \<Rightarrow> (case map_amount cm of None \<Rightarrow> None | Some col \<Rightarrow> row col))"

lemma parse_amount_cell:
  "parse_amount to_float (cell_value cell) =
     (if is_null_text (strip (cell_text cell)) then Inr (Finite 0)
      else case to_float (amount_text (strip (cell_text cell))) of
             Some a \<Rightarrow> Inr (if amount_negative (strip (cell_text cell))
                            then float_neg (float_abs a) else a)
           | None \<Rightarrow> Inl (ValueError (''Could not parse amount: '' @ cell_text cell)))"
proof (cases cell)
  case None
  have n: "is_null_text (strip ''None'')" by code_simp
  have "strip ''None'' \<noteq> [] \<and> lower (strip ''None'') = ''none''" by code_simp
  then have "parse_amount to_float NoneVal = Inr (Finite 0)"
    by (simp add: parse_amount_def)
  with n show ?thesis using None by (simp add: cell_value_def cell_text_def)
next
  case (Some s)
  have ct: "cell_text (Some s) = s" by (simp add: cell_text_def cell_value_def)
  have cv: "cell_value (Some s) = Str s" by (simp add: cell_value_def)
  show ?thesis unfolding Some ct cv by (rule parse_amount_Str)
qed

lemma parse_row_amount:
  assumes "parse_row to_float dateutil strptime row cm = Inr (Some t)"
  shows "\<exists>cell. amount_source row cm = Some cell
           \<and> parse_amount to_float (cell_value cell) = Inr (p_amount t)"
proof -
  from assms obtain date_str description where
    d: "row (map_date cm) = Some date_str" and de: "row (map_description cm) = Some description"
    by (auto simp: parse_row_def split: option.splits)
  show ?thesis
  proof (cases "map_amount_columns cm")
    case None
    with assms d de obtain col cell where "map_amount cm = Some col" "row col = Some cell"
      "parse_amount to_float (cell_value cell) = Inr (p_amount t)"
      by (auto simp: parse_row_def split: option.splits sum.splits if_splits)
    with None show ?thesis by (auto simp: amount_source_def)
  next
    case (Some cols)
    show ?thesis
    proof (cases cols)
      case Nil
      with Some assms d de obtain col cell where "map_amount cm = Some col" "row col = Some cell"
        "parse_amount to_float (cell_value cell) = Inr (p_amount t)"
        by (auto simp: parse_row_def split: option.splits sum.splits if_splits)
      with Some Nil show ?thesis by (auto simp: amount_source_def)
    next
      case (Cons c cs)
      with Some assms d de obtain s where "first_amount row (c # cs) = Inr s"
        "parse_amount to_float (cell_value (Some s)) = Inr (p_amount t)"
        by (auto simp: parse_row_def map_sum_def split: option.splits sum.splits if_splits)
      with Some Cons show ?thesis by (auto simp: amount_source_def)
    qed
  qed
qed

text \<open>
  Claim C8, amended. For every record that \<open>parse_row\<close> emits, the amount is the result
  of \<open>parse_amount\<close> on the row's amount cell. It is 0 when that cell is empty or a null
  sentinel (blank, \<open>null\<close>, \<open>none\<close>, \<open>n/a\<close> in any case; a missing cell counts as \<open>None\<close>).
  For every other cell it is the number \<open>float\<close> returns for the cleaned text of the
  cell, replaced by minus its absolute value when the cell is parenthesised or signed;
  so it is zero exactly when \<open>float\<close> returns zero for the cleaned text, and nothing
  makes it finite.
\<close>

theorem emitted_amount_zero:
  "parse_row to_float dateutil strptime row cm = Inr (Some t) \<longrightarrow>
     (\<exists>cell. amount_source row cm = Some cell
        \<and> parse_amount to_float (cell_value cell) = Inr (p_amount t)
        \<and> (is_null_text (strip (cell_text cell)) \<longrightarrow> p_amount t = Finite 0)
        \<and> (\<not> is_null_text (strip (cell_text cell)) \<longrightarrow>
              (\<exists>a. to_float (amount_text (strip (cell_text cell))) = Some a
                 \<and> p_amount t = (if amount_negative (strip (cell_text cell))
                                  then float_neg (float_abs a) else a)
                 \<and> (float_is_zero (p_amount t) \<longleftrightarrow> float_is_zero a))))"
proof
  assume "parse_row to_float dateutil strptime row cm = Inr (Some t)"
  from parse_row_amount[OF this] obtain cell where
    src: "amount_source row cm = Some cell"
    and pa: "parse_amount to_float (cell_value cell) = Inr (p_amount t)"
    by blast
  let ?x = "strip (cell_text cell)"
  have n: "is_null_text ?x \<longrightarrow> p_amount t = Finite 0"
    using pa by (auto simp: parse_amount_cell split: if_splits)
  have v: "\<not> is_null_text ?x \<longrightarrow>
              (\<exists>a. to_float (amount_text ?x) = Some a
                 \<and> p_amount t = (if amount_negative ?x then float_neg (float_abs a) else a)
                 \<and> (float_is_zero (p_amount t) \<longleftrightarrow> float_is_zero a))"
  proof
    assume nn: "\<not> is_null_text ?x"
    with pa obtain a where a: "to_float (amount_text ?x) = Some a"
      "p_amount t = (if amount_negative ?x then float_neg (float_abs a) else a)"
      by (auto simp: parse_amount_cell split: option.splits if_splits)
    then have "float_is_zero (p_amount t) \<longleftrightarrow> float_is_zero a"
      by (simp add: neg_abs_zero)
    with a show "\<exists>a. to_float (amount_text ?x) = Some a
                 \<and> p_amount t = (if amount_negative ?x then float_neg (float_abs a) else a)
                 \<and> (float_is_zero (p_amount t) \<longleftrightarrow> float_is_zero a)"
      by blast
  qed
  from src pa n v show "\<exists>cell. amount_source row cm = Some cell
        \<and> parse_amount to_float (cell_value cell) = Inr (p_amount t)
        \<and> (is_null_text (strip (cell_text cell)) \<longrightarrow> p_amount t = Finite 0)
        \<and> (\<not> is_null_text (strip (cell_text cell)) \<longrightarrow>
              (\<exists>a. to_float (amount_text (strip (cell_text cell))) = Some a
                 \<and> p_amount t = (if amount_negative (strip (cell_text cell))
                                  then float_neg (float_abs a) else a)
                 \<and> (float_is_zero (p_amount t) \<longleftrightarrow> float_is_zero a)))"
    by blast
qed

definition example_mapping :: column_mapping where
  "example_mapping = \<lparr>map_date = ''Date'', map_description = ''Description'',
                       map_amount = Some ''Amount'', map_amount_columns = None\<rparr>"

theorem emitted_amount_zero_witness:
  "parse_row example_float example_dateutil example_strptime
      (dict_row [''Date'', ''Description'', ''Amount''] [''2024-01-15'', ''COFFEE'', ''-4.50''])
      example_mapping
     = Inr (Some \<lparr>p_date = (2024, 1, 15), p_description = ''COFFEE'', p_amount = Finite (- 4.5)\<rparr>)
   \<and> (\<exists>cell. amount_source
          (dict_row [''Date'', ''Description'', ''Amount''] [''2024-01-15'', ''COFFEE'', ''-4.50''])
          example_mapping = Some cell
        \<and> parse_amount example_float (cell_value cell) = Inr (Finite (- 4.5)))"
proof -
  have p: "parse_row example_float example_dateutil example_strptime
      (dict_row [''Date'', ''Description'', ''Amount''] [''2024-01-15'', ''COFFEE'', ''-4.50''])
      example_mapping
     = Inr (Some \<lparr>p_date = (2024, 1, 15), p_description = ''COFFEE'', p_amount = Finite (- 4.5)\<rparr>)"
    by code_simp
  from emitted_amount_zero[where to_float=example_float and dateutil=example_dateutil
      and strptime=example_strptime
      and row="dict_row [''Date'', ''Description'', ''Amount''] [''2024-01-15'', ''COFFEE'', ''-4.50'']"
      and cm=example_mapping
      and t="\<lparr>p_date = (2024, 1, 15), p_description = ''COFFEE'', p_amount = Finite (- 4.5)\<rparr>"] p
  show ?thesis by auto
qed

text \<open>
  A cell that is neither empty nor a sentinel can give the amount 0: the row
  \<open>2024-01-15, COFFEE, 0.00\<close> is emitted with amount 0.
\<close>

theorem emitted_amount_zero_counterexample:
  "parse_csv example_float example_dateutil example_strptime
      [[''Date'', ''Description'', ''Amount''], [''2024-01-15'', ''COFFEE'', ''0.00'']] None
     = Inr \<lparr>transactions = [\<lparr>p_date = (2024, 1, 15), p_description = ''COFFEE'',
                               p_amount = Finite 0\<rparr>],
            filename = ''unknown.csv'', row_count = 1, errors = [],
            res_column_mapping = example_mapping\<rparr>
   \<and> \<not> is_null_text (strip ''0.00'')"
  by code_simp

section \<open>Properties of the ingestion parser\<close>








































text \<open>
  A row with fewer cells than the header has \<open>None\<close> cells. \<open>strip\<close> on such a cell raises
  \<open>AttributeError\<close>, which the loop does not catch: the whole parse fails, although the
  header row is there and every role is mapped.
\<close>

lemma parse_csv_short_row:
  "parse_csv example_float example_dateutil example_strptime
      [[''Date'', ''Description'', ''Amount''],
       [''2024-01-15'', ''COFFEE'', ''-4.50''],
       [''2024-01-16'']] None
     = Inl (AttributeError none_strip)"
  by code_simp

end
